theory Spec2Isabelle
  imports Main "HOL-Library.Word" "HOL-Library.AList"
begin

unbundle bit_operations_syntax

section \<open>FileTransferBLE: the transfer session of the BLE file manager\<close>

text \<open>
  The development follows \<^verbatim>\<open>FileTransferBLE.ino\<close>. The global variables of the
  sketch become one record, every handler becomes a function on that record, and the
  values the handlers obtain from the outside (free space, whether an open succeeds, how
  many bytes a write stores) are arguments of the handlers. Serial logging and the
  delays are left out: they touch none of the variables.
\<close>

subsection \<open>Configuration and data\<close>

type_synonym byte = "8 word"

definition CHUNK_SIZE :: nat where
  "CHUNK_SIZE = 200"

datatype TransferState = STATE_IDLE | STATE_UPLOADING | STATE_DOWNLOADING

text \<open>
  What the peer receives: a text notified on the data characteristic, or the single
  byte notified on the progress characteristic.
\<close>

datatype notification = Response string | Progress byte

text \<open>
  LittleFS holds files by path; the order of the entries is the order in which the root
  directory enumerates them.
\<close>

type_synonym storage = "(string \<times> byte list) list"

text \<open>
  A \<^verbatim>\<open>File\<close> object is \<open>None\<close> while it tests false (never opened, failed to open,
  or closed) and \<open>Some path\<close> while it is an open handle on \<open>path\<close>.
\<close>

type_synonym File = "string option"

record device =
  deviceConnected :: bool
  currentState :: TransferState
  currentFilename :: string
  currentFile :: File
  expectedFileSize :: "32 word"
  transferredBytes :: "32 word"
  expectedChunks :: "16 word"
  receivedChunks :: "16 word"
  littlefs :: storage
  notified :: "notification list"

text \<open>The unsigned division of line 531 traps when the divisor is zero.\<close>

datatype fault = IntegerDivideByZero

subsection \<open>Arduino strings\<close>

definition startsWith :: "string \<Rightarrow> string \<Rightarrow> bool" where
  "startsWith s p = (take (length p) s = p)"

definition digit_char :: "nat \<Rightarrow> char" where
  "digit_char d = char_of (48 + d)"

function String_of :: "nat \<Rightarrow> string" where
  "String_of n = (if n < 10 then [digit_char n] else String_of (n div 10) @ [digit_char (n mod 10)])"
  by pat_completeness auto
termination
  by (relation "measure (\<lambda>n. n)") auto

declare String_of.simps [simp del]

definition with_slash :: "string \<Rightarrow> string" where
  "with_slash filename = (if startsWith filename ''/'' then filename else ''/'' @ filename)"

subsection \<open>The chunk codec\<close>

text \<open>
  Modelled from the spec: the text encoding itself, which the sketch delegates to
  \<^verbatim>\<open>mbedtls_base64_encode\<close> and \<^verbatim>\<open>mbedtls_base64_decode\<close> of the Mbed TLS library;
  their code is not part of the repository. The spec asks for a deterministic,
  reversible text encoding without line breaks whose decoder fails on malformed input
  and never truncates; the sketch names it Base64. The model is Base64 with the
  standard alphabet and \<open>=\<close> padding: three bytes become four characters, a decoder
  that accepts only whole groups of four, and a decoder that reports an error when the
  output buffer of \<open>dlen\<close> bytes is too small for the decoded data.
\<close>

definition enc_char :: "nat \<Rightarrow> char" where
  "enc_char v =
     (if v < 26 then char_of (65 + v)
      else if v < 52 then char_of (97 + (v - 26))
      else if v < 62 then char_of (48 + (v - 52))
      else if v = 62 then CHR ''+''
      else CHR ''/'')"

definition dec_value :: "char \<Rightarrow> nat option" where
  "dec_value c =
     (let n = (of_char c :: nat) in
      if 65 \<le> n \<and> n \<le> 90 then Some (n - 65)
      else if 97 \<le> n \<and> n \<le> 122 then Some (n - 71)
      else if 48 \<le> n \<and> n \<le> 57 then Some (n + 4)
      else if c = CHR ''+'' then Some 62
      else if c = CHR ''/'' then Some 63
      else None)"

fun mbedtls_base64_encode :: "byte list \<Rightarrow> string" where
  "mbedtls_base64_encode [] = []"
| "mbedtls_base64_encode [c1] =
     [enc_char (unat c1 div 4), enc_char ((unat c1 mod 4) * 16), CHR ''='', CHR ''='']"
| "mbedtls_base64_encode [c1, c2] =
     [enc_char (unat c1 div 4), enc_char ((unat c1 mod 4) * 16 + unat c2 div 16),
      enc_char ((unat c2 mod 16) * 4), CHR ''='']"
| "mbedtls_base64_encode (c1 # c2 # c3 # rest) =
     [enc_char (unat c1 div 4), enc_char ((unat c1 mod 4) * 16 + unat c2 div 16),
      enc_char ((unat c2 mod 16) * 4 + unat c3 div 64), enc_char (unat c3 mod 64)]
     @ mbedtls_base64_encode rest"

text \<open>
  The accumulator of four six-bit digits, and the bytes taken from it (bits 23..16,
  15..8 and 7..0).
\<close>

definition accumulate :: "nat \<Rightarrow> nat \<Rightarrow> nat \<Rightarrow> nat \<Rightarrow> nat" where
  "accumulate w x y z = ((w * 64 + x) * 64 + y) * 64 + z"

definition BYTE_2 :: "nat \<Rightarrow> byte" where
  "BYTE_2 v = of_nat (v div 65536 mod 256)"

definition BYTE_1 :: "nat \<Rightarrow> byte" where
  "BYTE_1 v = of_nat (v div 256 mod 256)"

definition BYTE_0 :: "nat \<Rightarrow> byte" where
  "BYTE_0 v = of_nat (v mod 256)"

definition decode_full :: "char \<Rightarrow> char \<Rightarrow> char \<Rightarrow> char \<Rightarrow> byte list option" where
  "decode_full a b c d =
     (case (dec_value a, dec_value b, dec_value c, dec_value d) of
        (Some w, Some x, Some y, Some z) \<Rightarrow>
          (let v = accumulate w x y z in Some [BYTE_2 v, BYTE_1 v, BYTE_0 v])
      | _ \<Rightarrow> None)"

definition decode_final :: "char \<Rightarrow> char \<Rightarrow> char \<Rightarrow> char \<Rightarrow> byte list option" where
  "decode_final a b c d =
     (if d = CHR ''='' then
        (if c = CHR ''='' then
           (case (dec_value a, dec_value b) of
              (Some w, Some x) \<Rightarrow> Some [BYTE_2 (accumulate w x 0 0)]
            | _ \<Rightarrow> None)
         else
           (case (dec_value a, dec_value b, dec_value c) of
              (Some w, Some x, Some y) \<Rightarrow>
                (let v = accumulate w x y 0 in Some [BYTE_2 v, BYTE_1 v])
            | _ \<Rightarrow> None))
      else decode_full a b c d)"

fun decode_groups :: "string \<Rightarrow> byte list option" where
  "decode_groups [] = Some []"
| "decode_groups (a # b # c # d # rest) =
     (if rest = [] then decode_final a b c d
      else (case decode_full a b c d of
              None \<Rightarrow> None
            | Some bs \<Rightarrow> map_option (\<lambda>more. bs @ more) (decode_groups rest)))"
| "decode_groups _ = None"

datatype base64_error = INVALID_CHARACTER | BUFFER_TOO_SMALL

definition mbedtls_base64_decode :: "nat \<Rightarrow> string \<Rightarrow> base64_error + byte list" where
  "mbedtls_base64_decode dlen src =
     (case decode_groups src of
        None \<Rightarrow> Inl INVALID_CHARACTER
      | Some bs \<Rightarrow> if dlen < length bs then Inl BUFFER_TOO_SMALL else Inr bs)"

text \<open>
  \<^verbatim>\<open>encodeBase64\<close> (lines 684-696) returns the library's output as a string.
  \<^verbatim>\<open>decodeBase64\<close> (lines 702-719) returns the decoded length, and 0 when the library
  reports an error; the second component is what it stored in \<open>output\<close>.
\<close>

definition encodeBase64 :: "byte list \<Rightarrow> string" where
  "encodeBase64 data = mbedtls_base64_encode data"

definition decodeBase64 :: "string \<Rightarrow> nat \<Rightarrow> nat \<times> byte list" where
  "decodeBase64 input maxLen =
     (case mbedtls_base64_decode maxLen input of
        Inl ret \<Rightarrow> (0, [])
      | Inr bs \<Rightarrow> (length bs, bs))"

subsection \<open>Storage\<close>

text \<open>
  The storage engine is outside the sketch. It is taken as ideal here: \<open>exists\<close>,
  \<open>remove\<close> and \<open>size\<close> read and change the table of files, and \<open>remove\<close> reports
  whether there was an entry to delete. The two failures the sketch tests for, an open
  that yields no handle and a write that stores fewer bytes than asked, are decided by
  arguments of the handlers.
\<close>

definition LittleFS_exists :: "storage \<Rightarrow> string \<Rightarrow> bool" where
  "LittleFS_exists fs path = (map_of fs path \<noteq> None)"

definition LittleFS_remove :: "string \<Rightarrow> device \<Rightarrow> bool \<times> device" where
  "LittleFS_remove path w =
     (LittleFS_exists (littlefs w) path, w\<lparr>littlefs := AList.delete path (littlefs w)\<rparr>)"

definition contents :: "storage \<Rightarrow> string \<Rightarrow> byte list" where
  "contents fs path = (case map_of fs path of None \<Rightarrow> [] | Some bytes \<Rightarrow> bytes)"

text \<open>\<^verbatim>\<open>size()\<close> of a handle opened for reading on \<open>path\<close>; 0 when nothing was opened.\<close>

definition file_size :: "storage \<Rightarrow> string \<Rightarrow> 32 word" where
  "file_size fs path = of_nat (length (contents fs path))"

text \<open>\<^verbatim>\<open>currentFile = LittleFS.open(filename, "w")\<close>: creates or truncates the file.\<close>

definition open_currentFile :: "string \<Rightarrow> bool \<Rightarrow> device \<Rightarrow> device" where
  "open_currentFile filename succeeds w =
     (if succeeds
      then w\<lparr>currentFile := Some filename, littlefs := AList.update filename [] (littlefs w)\<rparr>
      else w\<lparr>currentFile := None\<rparr>)"

text \<open>
  \<^verbatim>\<open>currentFile.write(buffer, decodedLen)\<close>: the handle stores at most \<open>capacity\<close>
  bytes and returns how many it stored; a handle that is not open stores nothing.
\<close>

definition write_currentFile :: "byte list \<Rightarrow> nat \<Rightarrow> device \<Rightarrow> nat \<times> device" where
  "write_currentFile buffer capacity w =
     (case currentFile w of
        None \<Rightarrow> (0, w)
      | Some path \<Rightarrow>
          (let written = min capacity (length buffer)
           in (written,
               w\<lparr>littlefs :=
                    AList.update path (contents (littlefs w) path @ take written buffer)
                      (littlefs w)\<rparr>)))"

subsection \<open>Notifications\<close>

text \<open>
  \<^verbatim>\<open>sendResponse\<close> (lines 349-361) and \<^verbatim>\<open>sendProgress\<close> (lines 367-376). The
  characteristics exist once \<^verbatim>\<open>setupBLE\<close> has run, before any callback, so only the
  connection flag decides.
\<close>

definition sendResponse :: "string \<Rightarrow> device \<Rightarrow> device" where
  "sendResponse response w =
     (if \<not> deviceConnected w then w
      else w\<lparr>notified := notified w @ [Response (response @ [CHR 0x0A])]\<rparr>)"

definition sendProgress :: "byte \<Rightarrow> device \<Rightarrow> device" where
  "sendProgress percentage w =
     (if \<not> deviceConnected w then w
      else w\<lparr>notified := notified w @ [Progress percentage]\<rparr>)"

subsection \<open>The session\<close>

text \<open>\<^verbatim>\<open>resetTransferState\<close> (lines 725-738).\<close>

definition resetTransferState :: "device \<Rightarrow> device" where
  "resetTransferState w =
     w\<lparr>currentFile := None,
       currentState := STATE_IDLE,
       currentFilename := [],
       expectedFileSize := 0,
       transferredBytes := 0,
       expectedChunks := 0,
       receivedChunks := 0\<rparr>"

text \<open>
  \<^verbatim>\<open>startUpload\<close> (lines 444-493). \<open>freeSpace\<close> is
  \<^verbatim>\<open>LittleFS.totalBytes() - LittleFS.usedBytes()\<close>. The chunk count is computed in 32
  bits and stored in the 16-bit \<^verbatim>\<open>expectedChunks\<close>.
\<close>

definition startUpload :: "string \<Rightarrow> 32 word \<Rightarrow> 32 word \<Rightarrow> bool \<Rightarrow> device \<Rightarrow> device" where
  "startUpload name fileSize freeSpace opens w =
     (if currentState w \<noteq> STATE_IDLE then sendResponse ''ERROR:TRANSFER_IN_PROGRESS'' w
      else
        let filename = with_slash name in
        if fileSize > freeSpace then sendResponse ''ERROR:NO_SPACE'' w
        else
          let w1 = (if LittleFS_exists (littlefs w) filename
                    then snd (LittleFS_remove filename w) else w);
              w2 = open_currentFile filename opens w1
          in if currentFile w2 = None then sendResponse ''ERROR:CREATE_FAILED'' w2
             else
               let w3 = w2\<lparr>currentState := STATE_UPLOADING,
                           currentFilename := filename,
                           expectedFileSize := fileSize,
                           transferredBytes := 0,
                           expectedChunks :=
                             ucast ((fileSize + of_nat CHUNK_SIZE - 1) div of_nat CHUNK_SIZE),
                           receivedChunks := 0\<rparr>
               in sendProgress 0 (sendResponse ''OK:UPLOAD_READY'' w3))"

text \<open>Lines 545-565 of \<^verbatim>\<open>receiveChunk\<close>: the upload is complete.\<close>

definition finishUpload :: "device \<Rightarrow> device" where
  "finishUpload w =
     (let w1 = w\<lparr>currentFile := None\<rparr>;
          actualSize = file_size (littlefs w1) (currentFilename w1);
          w2 = (if actualSize = expectedFileSize w1
                then sendProgress 100
                       (sendResponse (''OK:UPLOAD_COMPLETE:'' @ String_of (unat actualSize)) w1)
                else sendResponse (''WARNING:SIZE_MISMATCH:'' @ String_of (unat actualSize)) w1)
      in resetTransferState w2)"

text \<open>
  \<^verbatim>\<open>receiveChunk\<close> (lines 499-567). \<open>capacity\<close> is the number of bytes the storage
  accepts in this write. The arithmetic is that of the source's types: 32-bit
  \<^verbatim>\<open>transferredBytes\<close>, 16-bit chunk counters, the quotient cut to 8 bits.
\<close>

definition receiveChunk :: "string \<Rightarrow> nat \<Rightarrow> device \<Rightarrow> fault + device" where
  "receiveChunk base64Data capacity w =
     (if currentState w \<noteq> STATE_UPLOADING then Inr (sendResponse ''ERROR:NOT_UPLOADING'' w)
      else
        case decodeBase64 base64Data (CHUNK_SIZE + 10) of (decodedLen, buffer) \<Rightarrow>
        if decodedLen = 0 then Inr (sendResponse ''ERROR:DECODE_FAILED'' w)
        else
          case write_currentFile buffer capacity w of (written, w1) \<Rightarrow>
          if written \<noteq> decodedLen then
            Inr (sendResponse ''ERROR:WRITE_FAILED''
                  (resetTransferState
                    (snd (LittleFS_remove (currentFilename w1) (w1\<lparr>currentFile := None\<rparr>)))))
          else
            let w2 = w1\<lparr>transferredBytes := transferredBytes w1 + of_nat written,
                        receivedChunks := receivedChunks w1 + 1\<rparr>
            in if expectedFileSize w2 = 0 then Inl IntegerDivideByZero
               else
                 let progress = (ucast ((transferredBytes w2 * 100) div expectedFileSize w2) :: byte);
                     w3 = (if receivedChunks w2 mod 10 = 0 \<or> receivedChunks w2 \<ge> expectedChunks w2
                           then sendProgress progress w2 else w2);
                     w4 = sendResponse (''ACK:'' @ String_of (unat (receivedChunks w3))) w3
                 in if receivedChunks w4 \<ge> expectedChunks w4
                       \<or> transferredBytes w4 \<ge> expectedFileSize w4
                    then Inr (finishUpload w4)
                    else Inr w4)"

text \<open>
  The loop of \<^verbatim>\<open>sendFileInChunks\<close> (lines 644-667) over the bytes not yet read.
  \<^verbatim>\<open>file.read\<close> yields the next \<^verbatim>\<open>CHUNK_SIZE\<close> bytes, or what is left.
\<close>

function send_chunks :: "byte list \<Rightarrow> 16 word \<Rightarrow> 16 word \<Rightarrow> 32 word \<Rightarrow> device \<Rightarrow> fault + device" where
  "send_chunks unread chunkNum totalChunks totalSize w =
     (if unread = [] then Inr w
      else
        let buffer = take CHUNK_SIZE unread in
        if length buffer = 0 then Inr w
        else
          let encoded = encodeBase64 buffer;
              w1 = sendResponse (''CHUNK:'' @ String_of (unat chunkNum) @ '':'' @ encoded) w;
              w2 = w1\<lparr>transferredBytes := transferredBytes w1 + of_nat (length buffer)\<rparr>;
              chunkNum' = chunkNum + 1
          in if totalSize = 0 then Inl IntegerDivideByZero
             else
               let progress = (ucast ((transferredBytes w2 * 100) div totalSize) :: byte);
                   w3 = (if chunkNum' mod 5 = 0 \<or> chunkNum' \<ge> totalChunks
                         then sendProgress progress w2 else w2)
               in send_chunks (drop CHUNK_SIZE unread) chunkNum' totalChunks totalSize w3)"
  by pat_completeness auto
termination
  by (relation "measure (\<lambda>(unread, chunkNum, totalChunks, totalSize, w). length unread)")
     (auto simp: CHUNK_SIZE_def)

declare send_chunks.simps [simp del]

text \<open>
  \<^verbatim>\<open>sendFileInChunks\<close> (lines 627-678). The file is read through a handle local to
  the function; \<^verbatim>\<open>currentFile\<close> is not assigned.
\<close>

definition sendFileInChunks :: "string \<Rightarrow> bool \<Rightarrow> device \<Rightarrow> fault + device" where
  "sendFileInChunks filename opens w =
     (if \<not> (opens \<and> LittleFS_exists (littlefs w) filename)
      then Inr (resetTransferState (sendResponse ''ERROR:FILE_OPEN_FAILED'' w))
      else
        let totalSize = file_size (littlefs w) filename;
            totalChunks = (ucast ((totalSize + of_nat CHUNK_SIZE - 1) div of_nat CHUNK_SIZE) :: 16 word);
            w1 = sendProgress 0 w
        in case send_chunks (contents (littlefs w) filename) 0 totalChunks totalSize w1 of
             Inl f \<Rightarrow> Inl f
           | Inr w2 \<Rightarrow>
               Inr (resetTransferState
                     (sendProgress 100
                       (sendResponse (''DOWNLOAD_END:'' @ String_of (unat (transferredBytes w2))) w2))))"

text \<open>Lines 607-610 of \<^verbatim>\<open>startDownload\<close>: the session while the file is being sent.\<close>

definition downloading :: "string \<Rightarrow> 32 word \<Rightarrow> device \<Rightarrow> device" where
  "downloading filename fileSize w =
     w\<lparr>currentState := STATE_DOWNLOADING,
       currentFilename := filename,
       expectedFileSize := fileSize,
       transferredBytes := 0\<rparr>"

text \<open>
  \<^verbatim>\<open>startDownload\<close> (lines 573-621). The handle \<^verbatim>\<open>file\<close> of lines 592-600 is local
  and closed again before the state is set.
\<close>

definition startDownload :: "string \<Rightarrow> bool \<Rightarrow> bool \<Rightarrow> device \<Rightarrow> fault + device" where
  "startDownload name opens reopens w =
     (if currentState w \<noteq> STATE_IDLE then Inr (sendResponse ''ERROR:TRANSFER_IN_PROGRESS'' w)
      else
        let filename = with_slash name in
        if \<not> LittleFS_exists (littlefs w) filename then Inr (sendResponse ''ERROR:FILE_NOT_FOUND'' w)
        else if \<not> opens then Inr (sendResponse ''ERROR:OPEN_FAILED'' w)
        else
          let fileSize = file_size (littlefs w) filename;
              w1 = downloading filename fileSize w;
              cleanName = (if startsWith filename ''/'' then drop 1 filename else filename);
              w2 = sendResponse
                     (''DOWNLOAD_START:'' @ cleanName @ '':'' @ String_of (unat fileSize)) w1
          in sendFileInChunks filename reopens w2)"

text \<open>\<^verbatim>\<open>deleteFile\<close> (lines 411-438).\<close>

definition deleteFile :: "string \<Rightarrow> device \<Rightarrow> device" where
  "deleteFile name w =
     (let filename = with_slash name in
      if \<not> LittleFS_exists (littlefs w) filename then sendResponse ''ERROR:FILE_NOT_FOUND'' w
      else if currentState w \<noteq> STATE_IDLE \<and> currentFilename w = filename
      then sendResponse ''ERROR:FILE_IN_USE'' w
      else
        case LittleFS_remove filename w of (removed, w1) \<Rightarrow>
        if removed then sendResponse ''OK:DELETED'' w1
        else sendResponse ''ERROR:DELETE_FAILED'' w1)"

text \<open>\<^verbatim>\<open>listFiles\<close> (lines 382-405); every entry of the table is a plain file.\<close>

definition listFiles :: "device \<Rightarrow> device" where
  "listFiles w =
     (let w1 = sendResponse ''FILES_START'' w;
          w2 = foldl
                 (\<lambda>acc (path, bytes).
                    let filename = (if startsWith path ''/'' then drop 1 path else path)
                    in sendResponse
                         (''FILE:'' @ filename @ '':''
                            @ String_of (unat (of_nat (length bytes) :: 32 word))) acc)
                 w1 (littlefs w)
      in sendResponse (''FILES_END:'' @ String_of (length (littlefs w))) w2)"

text \<open>\<^verbatim>\<open>ServerCallbacks\<close> (lines 94-118).\<close>

definition onConnect :: "device \<Rightarrow> device" where
  "onConnect w = w\<lparr>deviceConnected := True\<rparr>"

definition onDisconnect :: "device \<Rightarrow> device" where
  "onDisconnect w =
     (let w0 = w\<lparr>deviceConnected := False\<rparr> in
      if currentState w0 \<noteq> STATE_IDLE then
        let w1 = w0\<lparr>currentFile := None\<rparr>;
            w2 = (if currentState w1 = STATE_UPLOADING
                     \<and> LittleFS_exists (littlefs w1) (currentFilename w1)
                  then snd (LittleFS_remove (currentFilename w1) w1) else w1)
        in resetTransferState w2
      else w0)"

subsection \<open>Commands and events\<close>

text \<open>
  \<^verbatim>\<open>handleCommand\<close> (lines 288-343) splits the text it receives and calls one handler.
  The split text is the datatype below; \<open>InvalidUpload\<close> is an upload start without the
  colon before the size. What the handler learns from outside comes with the command.
\<close>

datatype command =
    List
  | Delete string
  | UploadStart string "32 word"
  | InvalidUpload
  | UploadChunk string
  | Download string
  | Ping
  | Unknown

record outside =
  freeSpace :: "32 word"
  opens :: bool
  reopens :: bool
  capacity :: nat

fun handleCommand :: "command \<Rightarrow> outside \<Rightarrow> device \<Rightarrow> fault + device" where
  "handleCommand List env w = Inr (listFiles w)"
| "handleCommand (Delete filename) env w = Inr (deleteFile filename w)"
| "handleCommand (UploadStart filename fileSize) env w =
     Inr (startUpload filename fileSize (freeSpace env) (opens env) w)"
| "handleCommand InvalidUpload env w = Inr (sendResponse ''ERROR:INVALID_UPLOAD_COMMAND'' w)"
| "handleCommand (UploadChunk base64Data) env w = receiveChunk base64Data (capacity env) w"
| "handleCommand (Download filename) env w = startDownload filename (opens env) (reopens env) w"
| "handleCommand Ping env w = Inr (sendResponse ''PONG'' w)"
| "handleCommand Unknown env w = Inr (sendResponse ''ERROR:UNKNOWN_COMMAND'' w)"

datatype event = Connect | Disconnect | Write command outside

fun handle :: "event \<Rightarrow> device \<Rightarrow> fault + device" where
  "handle Connect w = Inr (onConnect w)"
| "handle Disconnect w = Inr (onDisconnect w)"
| "handle (Write cmd env) w = handleCommand cmd env w"

text \<open>
  The globals as the sketch initialises them (lines 53-69), over the files that storage
  holds when the device starts.
\<close>

definition boot :: "storage \<Rightarrow> device" where
  "boot fs =
     \<lparr>deviceConnected = False,
      currentState = STATE_IDLE,
      currentFilename = [],
      currentFile = None,
      expectedFileSize = 0,
      transferredBytes = 0,
      expectedChunks = 0,
      receivedChunks = 0,
      littlefs = fs,
      notified = []\<rparr>"

text \<open>
  The states at the command boundaries: the start, and the state after each event that
  was handled to its end. A handler that faults yields no state; the device starts again
  from \<open>boot\<close>.
\<close>

inductive reachable :: "device \<Rightarrow> bool" where
  at_boot: "reachable (boot fs)"
| after_event: "reachable w \<Longrightarrow> handle e w = Inr w' \<Longrightarrow> reachable w'"

subsection \<open>The handlers, statement by statement\<close>

text \<open>
  Between two command boundaries a handler changes the globals one statement at a time.
  A statement is a function on the device; the statements a handler executes, in the
  order of the source, are a list that depends on the state \<open>w\<close> in which the handler
  starts and on what it learns from outside. Every assignment to a global, every call
  that changes storage and every notification is one statement. A handler that faults
  executes the statements before the fault.
\<close>

type_synonym statement = "device \<Rightarrow> device"

fun passes :: "device \<Rightarrow> statement list \<Rightarrow> device list" where
  "passes w [] = [w]"
| "passes w (f # fs) = w # passes (f w) fs"

fun transitions :: "device \<Rightarrow> statement list \<Rightarrow> (device \<times> device) list" where
  "transitions w [] = []"
| "transitions w (f # fs) = (w, f w) # transitions (f w) fs"

definition execute :: "statement list \<Rightarrow> device \<Rightarrow> device" where
  "execute fs w = foldl (\<lambda>s f. f s) w fs"

text \<open>\<^verbatim>\<open>resetTransferState\<close>, lines 726-735.\<close>

definition resetTransferState_steps :: "statement list" where
  "resetTransferState_steps =
     [\<lambda>s. s\<lparr>currentFile := None\<rparr>,
      \<lambda>s. s\<lparr>currentState := STATE_IDLE\<rparr>,
      \<lambda>s. s\<lparr>currentFilename := []\<rparr>,
      \<lambda>s. s\<lparr>expectedFileSize := 0\<rparr>,
      \<lambda>s. s\<lparr>transferredBytes := 0\<rparr>,
      \<lambda>s. s\<lparr>expectedChunks := 0\<rparr>,
      \<lambda>s. s\<lparr>receivedChunks := 0\<rparr>]"

text \<open>\<^verbatim>\<open>startUpload\<close>: the file is opened at line 471, the phase is set at line 479.\<close>

definition startUpload_steps ::
  "string \<Rightarrow> 32 word \<Rightarrow> 32 word \<Rightarrow> bool \<Rightarrow> device \<Rightarrow> statement list" where
  "startUpload_steps name fileSize free ok w =
     (if currentState w \<noteq> STATE_IDLE then [sendResponse ''ERROR:TRANSFER_IN_PROGRESS'']
      else
        let filename = with_slash name in
        if fileSize > free then [sendResponse ''ERROR:NO_SPACE'']
        else
          (if LittleFS_exists (littlefs w) filename
           then [\<lambda>s. snd (LittleFS_remove filename s)] else [])
          @ [open_currentFile filename ok]
          @ (if \<not> ok then [sendResponse ''ERROR:CREATE_FAILED'']
             else
               [\<lambda>s. s\<lparr>currentState := STATE_UPLOADING\<rparr>,
                \<lambda>s. s\<lparr>currentFilename := filename\<rparr>,
                \<lambda>s. s\<lparr>expectedFileSize := fileSize\<rparr>,
                \<lambda>s. s\<lparr>transferredBytes := 0\<rparr>,
                \<lambda>s. s\<lparr>expectedChunks :=
                         ucast ((fileSize + of_nat CHUNK_SIZE - 1) div of_nat CHUNK_SIZE)\<rparr>,
                \<lambda>s. s\<lparr>receivedChunks := 0\<rparr>,
                sendResponse ''OK:UPLOAD_READY'',
                sendProgress 0]))"

text \<open>
  The completion of an upload: the file is closed at line 546, the result is notified at
  lines 557-563, the session is reset at line 565.
\<close>

definition finishUpload_steps :: "statement list" where
  "finishUpload_steps =
     [\<lambda>s. s\<lparr>currentFile := None\<rparr>,
      \<lambda>s. if file_size (littlefs s) (currentFilename s) = expectedFileSize s
          then sendResponse
                 (''OK:UPLOAD_COMPLETE:''
                    @ String_of (unat (file_size (littlefs s) (currentFilename s)))) s
          else sendResponse
                 (''WARNING:SIZE_MISMATCH:''
                    @ String_of (unat (file_size (littlefs s) (currentFilename s)))) s,
      \<lambda>s. if file_size (littlefs s) (currentFilename s) = expectedFileSize s
          then sendProgress 100 s else s]
     @ resetTransferState_steps"

text \<open>\<^verbatim>\<open>receiveChunk\<close>; with a declared size of 0 it stops at the division of line 531.\<close>

definition receiveChunk_steps :: "string \<Rightarrow> nat \<Rightarrow> device \<Rightarrow> statement list" where
  "receiveChunk_steps base64Data cap w =
     (if currentState w \<noteq> STATE_UPLOADING then [sendResponse ''ERROR:NOT_UPLOADING'']
      else
        case decodeBase64 base64Data (CHUNK_SIZE + 10) of (decodedLen, buffer) \<Rightarrow>
        if decodedLen = 0 then [sendResponse ''ERROR:DECODE_FAILED'']
        else
          let written = fst (write_currentFile buffer cap w) in
          [\<lambda>s. snd (write_currentFile buffer cap s)]
          @ (if written \<noteq> decodedLen then
               [\<lambda>s. s\<lparr>currentFile := None\<rparr>,
                \<lambda>s. snd (LittleFS_remove (currentFilename s) s)]
               @ resetTransferState_steps
               @ [sendResponse ''ERROR:WRITE_FAILED'']
             else
               [\<lambda>s. s\<lparr>transferredBytes := transferredBytes s + of_nat written\<rparr>,
                \<lambda>s. s\<lparr>receivedChunks := receivedChunks s + 1\<rparr>]
               @ (if expectedFileSize w = 0 then []
                  else
                    [\<lambda>s. if receivedChunks s mod 10 = 0 \<or> receivedChunks s \<ge> expectedChunks s
                         then sendProgress
                                (ucast ((transferredBytes s * 100) div expectedFileSize s)) s
                         else s,
                     \<lambda>s. sendResponse (''ACK:'' @ String_of (unat (receivedChunks s))) s]
                    @ (if receivedChunks w + 1 \<ge> expectedChunks w
                          \<or> transferredBytes w + of_nat written \<ge> expectedFileSize w
                       then finishUpload_steps else []))))"

text \<open>The loop of \<^verbatim>\<open>sendFileInChunks\<close>; it stops at the division of line 659 when that faults.\<close>

function send_chunks_steps :: "byte list \<Rightarrow> 16 word \<Rightarrow> 16 word \<Rightarrow> 32 word \<Rightarrow> statement list" where
  "send_chunks_steps unread chunkNum totalChunks totalSize =
     (if unread = [] then []
      else
        let buffer = take CHUNK_SIZE unread in
        if length buffer = 0 then []
        else
          [sendResponse (''CHUNK:'' @ String_of (unat chunkNum) @ '':'' @ encodeBase64 buffer),
           \<lambda>s. s\<lparr>transferredBytes := transferredBytes s + of_nat (length buffer)\<rparr>]
          @ (if totalSize = 0 then []
             else
               [\<lambda>s. if (chunkNum + 1) mod 5 = 0 \<or> chunkNum + 1 \<ge> totalChunks
                    then sendProgress (ucast ((transferredBytes s * 100) div totalSize)) s
                    else s]
               @ send_chunks_steps (drop CHUNK_SIZE unread) (chunkNum + 1) totalChunks totalSize))"
  by pat_completeness auto
termination
  by (relation "measure (\<lambda>(unread, chunkNum, totalChunks, totalSize). length unread)")
     (auto simp: CHUNK_SIZE_def)

declare send_chunks_steps.simps [simp del]

definition sendFileInChunks_steps :: "string \<Rightarrow> bool \<Rightarrow> device \<Rightarrow> statement list" where
  "sendFileInChunks_steps filename ok w =
     (if \<not> (ok \<and> LittleFS_exists (littlefs w) filename)
      then [sendResponse ''ERROR:FILE_OPEN_FAILED''] @ resetTransferState_steps
      else
        let totalSize = file_size (littlefs w) filename;
            totalChunks = (ucast ((totalSize + of_nat CHUNK_SIZE - 1) div of_nat CHUNK_SIZE) :: 16 word);
            unread = contents (littlefs w) filename
        in [sendProgress 0]
           @ send_chunks_steps unread 0 totalChunks totalSize
           @ (if totalSize = 0 \<and> unread \<noteq> [] then []
              else
                [\<lambda>s. sendResponse (''DOWNLOAD_END:'' @ String_of (unat (transferredBytes s))) s,
                 sendProgress 100]
                @ resetTransferState_steps))"

text \<open>
  \<^verbatim>\<open>startDownload\<close>: the phase is set at line 607; \<^verbatim>\<open>currentFile\<close> is assigned
  nowhere.
\<close>

definition startDownload_steps :: "string \<Rightarrow> bool \<Rightarrow> bool \<Rightarrow> device \<Rightarrow> statement list" where
  "startDownload_steps name ok ok2 w =
     (if currentState w \<noteq> STATE_IDLE then [sendResponse ''ERROR:TRANSFER_IN_PROGRESS'']
      else
        let filename = with_slash name in
        if \<not> LittleFS_exists (littlefs w) filename then [sendResponse ''ERROR:FILE_NOT_FOUND'']
        else if \<not> ok then [sendResponse ''ERROR:OPEN_FAILED'']
        else
          let fileSize = file_size (littlefs w) filename;
              cleanName = (if startsWith filename ''/'' then drop 1 filename else filename)
          in [\<lambda>s. s\<lparr>currentState := STATE_DOWNLOADING\<rparr>,
              \<lambda>s. s\<lparr>currentFilename := filename\<rparr>,
              \<lambda>s. s\<lparr>expectedFileSize := fileSize\<rparr>,
              \<lambda>s. s\<lparr>transferredBytes := 0\<rparr>,
              sendResponse (''DOWNLOAD_START:'' @ cleanName @ '':'' @ String_of (unat fileSize))]
             @ sendFileInChunks_steps filename ok2 w)"

definition deleteFile_steps :: "string \<Rightarrow> device \<Rightarrow> statement list" where
  "deleteFile_steps name w =
     (let filename = with_slash name in
      if \<not> LittleFS_exists (littlefs w) filename then [sendResponse ''ERROR:FILE_NOT_FOUND'']
      else if currentState w \<noteq> STATE_IDLE \<and> currentFilename w = filename
      then [sendResponse ''ERROR:FILE_IN_USE'']
      else
        [\<lambda>s. snd (LittleFS_remove filename s),
         if fst (LittleFS_remove filename w) then sendResponse ''OK:DELETED''
         else sendResponse ''ERROR:DELETE_FAILED''])"

definition listFiles_steps :: "device \<Rightarrow> statement list" where
  "listFiles_steps w =
     [sendResponse ''FILES_START'']
     @ map (\<lambda>(path, bytes).
              sendResponse
                (''FILE:'' @ (if startsWith path ''/'' then drop 1 path else path) @ '':''
                   @ String_of (unat (of_nat (length bytes) :: 32 word))))
         (littlefs w)
     @ [sendResponse (''FILES_END:'' @ String_of (length (littlefs w)))]"

definition onDisconnect_steps :: "device \<Rightarrow> statement list" where
  "onDisconnect_steps w =
     [\<lambda>s. s\<lparr>deviceConnected := False\<rparr>]
     @ (if currentState w \<noteq> STATE_IDLE then
          [\<lambda>s. s\<lparr>currentFile := None\<rparr>]
          @ (if currentState w = STATE_UPLOADING
                \<and> LittleFS_exists (littlefs w) (currentFilename w)
             then [\<lambda>s. snd (LittleFS_remove (currentFilename s) s)] else [])
          @ resetTransferState_steps
        else [])"

fun handleCommand_steps :: "command \<Rightarrow> outside \<Rightarrow> device \<Rightarrow> statement list" where
  "handleCommand_steps List env w = listFiles_steps w"
| "handleCommand_steps (Delete filename) env w = deleteFile_steps filename w"
| "handleCommand_steps (UploadStart filename fileSize) env w =
     startUpload_steps filename fileSize (freeSpace env) (opens env) w"
| "handleCommand_steps InvalidUpload env w = [sendResponse ''ERROR:INVALID_UPLOAD_COMMAND'']"
| "handleCommand_steps (UploadChunk base64Data) env w =
     receiveChunk_steps base64Data (capacity env) w"
| "handleCommand_steps (Download filename) env w =
     startDownload_steps filename (opens env) (reopens env) w"
| "handleCommand_steps Ping env w = [sendResponse ''PONG'']"
| "handleCommand_steps Unknown env w = [sendResponse ''ERROR:UNKNOWN_COMMAND'']"

fun handle_steps :: "event \<Rightarrow> device \<Rightarrow> statement list" where
  "handle_steps Connect w = [\<lambda>s. s\<lparr>deviceConnected := True\<rparr>]"
| "handle_steps Disconnect w = onDisconnect_steps w"
| "handle_steps (Write cmd env) w = handleCommand_steps cmd env w"

text \<open>
  Every state of the device: a state at a command boundary, or a state after one of the
  statements of the handler that starts there.
\<close>

inductive passes_through :: "device \<Rightarrow> bool" where
  in_handler: "reachable w \<Longrightarrow> v \<in> set (passes w (handle_steps e w)) \<Longrightarrow> passes_through v"

subsection \<open>Notions used in the statements\<close>

text \<open>The fields of the session, without storage, connection flag and notifications.\<close>

definition session ::
  "device \<Rightarrow> TransferState \<times> string \<times> File \<times> 32 word \<times> 32 word \<times> 16 word \<times> 16 word" where
  "session w = (currentState w, currentFilename w, currentFile w, expectedFileSize w,
                transferredBytes w, expectedChunks w, receivedChunks w)"

text \<open>
  A run of chunk commands, each with the number of bytes storage accepts for it. A chunk
  is accepted when it decodes to at least one byte and storage takes all of them.
\<close>

fun upload_chunks :: "(string \<times> nat) list \<Rightarrow> device \<Rightarrow> fault + device" where
  "upload_chunks [] w = Inr w"
| "upload_chunks ((base64Data, cap) # rest) w =
     (case receiveChunk base64Data cap w of
        Inl f \<Rightarrow> Inl f
      | Inr w' \<Rightarrow> upload_chunks rest w')"

definition decodedLength :: "string \<Rightarrow> nat" where
  "decodedLength base64Data = fst (decodeBase64 base64Data (CHUNK_SIZE + 10))"

definition accepted :: "string \<times> nat \<Rightarrow> bool" where
  "accepted c \<longleftrightarrow> 0 < decodedLength (fst c) \<and> decodedLength (fst c) \<le> snd c"

definition total_bytes :: "(string \<times> nat) list \<Rightarrow> nat" where
  "total_bytes chunks = sum_list (map (\<lambda>c. decodedLength (fst c)) chunks)"

text \<open>The number of chunks of a file of \<open>S\<close> bytes, rounded up, without any wrap-around.\<close>

definition chunks_needed :: "32 word \<Rightarrow> nat" where
  "chunks_needed S = (unat S + CHUNK_SIZE - 1) div CHUNK_SIZE"

text \<open>
  The last notifications are the report of a finished upload: the completion message
  followed by 100 percent, or the size-mismatch warning.
\<close>

definition ends_with_report :: "notification list \<Rightarrow> bool" where
  "ends_with_report ns =
     (case rev ns of
        Progress p # Response r # _ \<Rightarrow> p = 100 \<and> startsWith r ''OK:UPLOAD_COMPLETE:''
      | Response r # _ \<Rightarrow> startsWith r ''WARNING:SIZE_MISMATCH:''
      | _ \<Rightarrow> False)"

subsection \<open>Example sessions\<close>

definition example_env :: outside where
  "example_env = \<lparr>freeSpace = 1000, opens = True, reopens = True, capacity = 1000\<rparr>"

definition short_write_env :: outside where
  "short_write_env = \<lparr>freeSpace = 1000, opens = True, reopens = True, capacity = 2\<rparr>"

text \<open>A peer has connected to a device with empty storage.\<close>

definition connected_device :: device where
  "connected_device = onConnect (boot [])"

text \<open>The peer has started the upload of \<^verbatim>\<open>a.bin\<close> with 300, 0, 1 and 13107200 bytes declared.\<close>

definition uploading_device :: device where
  "uploading_device = startUpload ''a.bin'' 300 1000 True connected_device"

definition empty_upload :: device where
  "empty_upload = startUpload ''a.bin'' 0 1000 True connected_device"

definition one_byte_upload :: device where
  "one_byte_upload = startUpload ''a.bin'' 1 1000 True connected_device"

definition large_upload :: device where
  "large_upload = startUpload ''a.bin'' 13107200 13107200 True connected_device"

text \<open>
  A device that holds a three-byte file, with a peer connected, and the same device while
  it sends the file.
\<close>

definition stored_device :: device where
  "stored_device = onConnect (boot [(''/a.bin'', [1, 2, 3])])"

definition downloading_device :: device where
  "downloading_device = downloading ''/a.bin'' 3 stored_device"

text \<open>
  Two states inside handlers: \<^verbatim>\<open>startUpload\<close> has opened the file (line 471) and not
  yet set the phase, and \<^verbatim>\<open>receiveChunk\<close> has closed the file of a complete upload
  (line 546) and not yet reset the session.
\<close>

definition opening_device :: device where
  "opening_device =
     execute (take 1 (startUpload_steps ''a.bin'' 300 1000 True connected_device)) connected_device"

definition closing_device :: device where
  "closing_device =
     execute (take 6 (receiveChunk_steps ''QQ=='' 1000 one_byte_upload)) one_byte_upload"

text \<open>
  The upload of \<^verbatim>\<open>a.bin\<close> while the peer disconnects: before and after the statement
  of \<^verbatim>\<open>resetTransferState\<close> that sets the phase.
\<close>

definition disconnecting_device :: device where
  "disconnecting_device =
     execute (take 4 (onDisconnect_steps uploading_device)) uploading_device"

definition disconnected_device :: device where
  "disconnected_device =
     execute (take 5 (onDisconnect_steps uploading_device)) uploading_device"

text \<open>A storage with room for the large upload.\<close>

definition large_env :: outside where
  "large_env = \<lparr>freeSpace = 13107200, opens = True, reopens = True, capacity = 1000\<rparr>"

section \<open>The chunk codec\<close>

lemma dec_value_enc_char: "v < 64 \<Longrightarrow> dec_value (enc_char v) = Some v"
  unfolding dec_value_def enc_char_def Let_def
  by (simp add: of_char_of) arith

lemma enc_char_not_padding: "enc_char v \<noteq> CHR ''=''"
proof -
  have "of_char (enc_char v) \<noteq> (61::nat)"
    unfolding enc_char_def by (simp add: of_char_of) arith
  then show ?thesis by auto
qed

lemma accumulate_digits:
  "accumulate p (q * 16 + r) (s * 4 + t) u
     = (p * 4 + q) * 65536 + (r * 16 + s) * 256 + (t * 64 + u)"
  unfolding accumulate_def by (simp add: algebra_simps)

lemma accumulate_three:
  "accumulate (a div 4) ((a mod 4) * 16 + b div 16) ((b mod 16) * 4 + c div 64) (c mod 64)
     = a * 65536 + b * 256 + c"
  by (simp only: accumulate_digits div_mult_mod_eq)

lemma accumulate_two:
  "accumulate (a div 4) ((a mod 4) * 16 + b div 16) ((b mod 16) * 4) 0 = a * 65536 + b * 256 + 0"
  using accumulate_digits [of "a div 4" "a mod 4" "b div 16" "b mod 16" 0 0]
  by (simp only: div_mult_mod_eq mult_0 add_0_right add_0_left)

lemma accumulate_one:
  "accumulate (a div 4) ((a mod 4) * 16) 0 0 = a * 65536 + 0 * 256 + 0"
  using accumulate_digits [of "a div 4" "a mod 4" 0 0 0 0]
  by (simp only: div_mult_mod_eq mult_0 add_0_right add_0_left)

lemma bytes_of_accumulator:
  assumes "a < 256" "b < 256" "c < 256"
  shows "BYTE_2 (a * 65536 + b * 256 + c) = of_nat a"
    and "BYTE_1 (a * 65536 + b * 256 + c) = of_nat b"
    and "BYTE_0 (a * 65536 + b * 256 + c) = of_nat c"
proof -
  have "(a * 65536 + b * 256 + c) div 65536 = a" using assms by simp
  then show "BYTE_2 (a * 65536 + b * 256 + c) = of_nat a"
    using assms by (simp add: BYTE_2_def)
  have "(a * 65536 + b * 256 + c) div 256 = a * 256 + b" using assms by simp
  then show "BYTE_1 (a * 65536 + b * 256 + c) = of_nat b"
    using assms by (simp add: BYTE_1_def)
  have "a * 65536 + b * 256 + c = c + (a * 256 + b) * 256" by simp
  then have "(a * 65536 + b * 256 + c) mod 256 = c"
    using assms by (simp only: mod_mult_self1 mod_less)
  then show "BYTE_0 (a * 65536 + b * 256 + c) = of_nat c"
    by (simp add: BYTE_0_def)
qed

lemma unat_byte: "unat (c :: byte) < 256"
  using unsigned_less [of c, where 'a = nat] by simp

lemma six_bit_digits:
  "unat (c :: byte) div 4 < 64"
  "unat (c :: byte) mod 4 * 16 + unat (d :: byte) div 16 < 64"
  "unat (c :: byte) mod 16 * 4 + unat (d :: byte) div 64 < 64"
  "unat c mod 64 < 64"
  "unat c mod 4 * 16 < 64"
  "unat c mod 16 * 4 < 64"
  using unat_byte [of c] unat_byte [of d] by simp_all

lemma decode_full_of_encoded:
  "decode_full (enc_char (unat c1 div 4)) (enc_char ((unat c1 mod 4) * 16 + unat c2 div 16))
      (enc_char ((unat c2 mod 16) * 4 + unat c3 div 64)) (enc_char (unat c3 mod 64))
   = Some [c1, c2, c3]"
  by (simp add: decode_full_def dec_value_enc_char six_bit_digits accumulate_three
      bytes_of_accumulator unat_byte)

lemma encode_empty_iff: "mbedtls_base64_encode bs = [] \<longleftrightarrow> bs = []"
  by (induction bs rule: mbedtls_base64_encode.induct) simp_all

lemma decode_groups_encode: "decode_groups (mbedtls_base64_encode bs) = Some bs"
proof (induction bs rule: mbedtls_base64_encode.induct)
  case 1
  show ?case by simp
next
  case (2 c1)
  show ?case
    using bytes_of_accumulator(1) [of "unat c1" 0 0]
    by (simp add: decode_final_def dec_value_enc_char six_bit_digits accumulate_one unat_byte)
next
  case (3 c1 c2)
  show ?case
    using bytes_of_accumulator(1,2) [of "unat c1" "unat c2" 0]
    by (simp add: decode_final_def dec_value_enc_char six_bit_digits accumulate_two unat_byte
        enc_char_not_padding)
next
  case (4 c1 c2 c3 rest)
  then show ?case
    by (simp add: decode_final_def decode_full_of_encoded enc_char_not_padding encode_empty_iff)
qed

lemma decodeBase64_length:
  "decodeBase64 s m = (n, buf) \<Longrightarrow> n = length buf \<and> n \<le> m"
  by (auto simp: decodeBase64_def mbedtls_base64_decode_def
      split: option.splits sum.splits if_splits)

lemma decodeBase64_encoded:
  "length b \<le> maxLen \<Longrightarrow> decodeBase64 (encodeBase64 b) maxLen = (length b, b)"
  by (simp add: decodeBase64_def encodeBase64_def mbedtls_base64_decode_def decode_groups_encode)

text \<open>
  C2 (as amended). For every byte sequence \<open>b\<close> that fits the output buffer handed to
  \<^verbatim>\<open>decodeBase64\<close> (\<open>maxLen\<close> bytes; \<^verbatim>\<open>receiveChunk\<close> passes \<^verbatim>\<open>CHUNK_SIZE + 10\<close>),
  decoding the encoding of \<open>b\<close> stores exactly \<open>b\<close> and returns its length. This covers
  the empty sequence, for which the returned length 0 is also what a failure returns, and
  sequences of exactly \<^verbatim>\<open>CHUNK_SIZE\<close> bytes.
\<close>

theorem decode_encode_roundtrip:
  "length b \<le> maxLen \<Longrightarrow> decodeBase64 (encodeBase64 b) maxLen = (length b, b)"
  by (rule decodeBase64_encoded)

text \<open>The round trip at a chunk of exactly \<^verbatim>\<open>CHUNK_SIZE\<close> bytes and at the empty chunk.\<close>

theorem decode_encode_roundtrip_witness:
  "length (replicate CHUNK_SIZE (7 :: byte)) \<le> CHUNK_SIZE + 10
   \<and> decodeBase64 (encodeBase64 (replicate CHUNK_SIZE 7)) (CHUNK_SIZE + 10)
       = (CHUNK_SIZE, replicate CHUNK_SIZE 7)
   \<and> decodeBase64 (encodeBase64 []) (CHUNK_SIZE + 10) = (0, [])"
  using decode_encode_roundtrip [of "replicate CHUNK_SIZE 7" "CHUNK_SIZE + 10"]
    decode_encode_roundtrip [of "[]" "CHUNK_SIZE + 10"]
  by simp

text \<open>
  C2 as stated fails for a sequence longer than the buffer: 211 bytes encode, but the
  decoder called as \<^verbatim>\<open>receiveChunk\<close> calls it returns 0 and stores nothing.
\<close>

theorem decode_encode_buffer_too_small:
  "decodeBase64 (encodeBase64 (replicate 211 0)) (CHUNK_SIZE + 10) = (0, [])
   \<and> replicate 211 (0 :: byte) \<noteq> []"
  by (simp add: decodeBase64_def encodeBase64_def mbedtls_base64_decode_def decode_groups_encode
      CHUNK_SIZE_def)

section \<open>What the helpers leave unchanged\<close>

lemma sendResponse_fields [simp]:
  "deviceConnected (sendResponse r w) = deviceConnected w"
  "currentState (sendResponse r w) = currentState w"
  "currentFilename (sendResponse r w) = currentFilename w"
  "currentFile (sendResponse r w) = currentFile w"
  "expectedFileSize (sendResponse r w) = expectedFileSize w"
  "transferredBytes (sendResponse r w) = transferredBytes w"
  "expectedChunks (sendResponse r w) = expectedChunks w"
  "receivedChunks (sendResponse r w) = receivedChunks w"
  "littlefs (sendResponse r w) = littlefs w"
  by (simp_all add: sendResponse_def)

lemma sendProgress_fields [simp]:
  "deviceConnected (sendProgress p w) = deviceConnected w"
  "currentState (sendProgress p w) = currentState w"
  "currentFilename (sendProgress p w) = currentFilename w"
  "currentFile (sendProgress p w) = currentFile w"
  "expectedFileSize (sendProgress p w) = expectedFileSize w"
  "transferredBytes (sendProgress p w) = transferredBytes w"
  "expectedChunks (sendProgress p w) = expectedChunks w"
  "receivedChunks (sendProgress p w) = receivedChunks w"
  "littlefs (sendProgress p w) = littlefs w"
  by (simp_all add: sendProgress_def)

lemma resetTransferState_fields [simp]:
  "deviceConnected (resetTransferState w) = deviceConnected w"
  "currentState (resetTransferState w) = STATE_IDLE"
  "currentFilename (resetTransferState w) = []"
  "currentFile (resetTransferState w) = None"
  "expectedFileSize (resetTransferState w) = 0"
  "transferredBytes (resetTransferState w) = 0"
  "expectedChunks (resetTransferState w) = 0"
  "receivedChunks (resetTransferState w) = 0"
  "littlefs (resetTransferState w) = littlefs w"
  "notified (resetTransferState w) = notified w"
  by (simp_all add: resetTransferState_def)

lemma sendResponse_notified:
  "notified (sendResponse r w)
     = notified w @ (if deviceConnected w then [Response (r @ [CHR 0x0A])] else [])"
  by (simp add: sendResponse_def)

lemma sendResponse_as_update:
  "sendResponse r w
     = w\<lparr>notified := notified w @ (if deviceConnected w then [Response (r @ [CHR 0x0A])] else [])\<rparr>"
  by (simp add: sendResponse_def)

lemma removed_is_gone [simp]:
  "\<not> LittleFS_exists (littlefs (snd (LittleFS_remove path w))) path"
  by (simp add: LittleFS_remove_def LittleFS_exists_def delete_conv)

lemma LittleFS_remove_fields [simp]:
  "deviceConnected (snd (LittleFS_remove path w)) = deviceConnected w"
  "currentState (snd (LittleFS_remove path w)) = currentState w"
  "currentFilename (snd (LittleFS_remove path w)) = currentFilename w"
  "currentFile (snd (LittleFS_remove path w)) = currentFile w"
  "expectedFileSize (snd (LittleFS_remove path w)) = expectedFileSize w"
  "transferredBytes (snd (LittleFS_remove path w)) = transferredBytes w"
  "expectedChunks (snd (LittleFS_remove path w)) = expectedChunks w"
  "receivedChunks (snd (LittleFS_remove path w)) = receivedChunks w"
  "notified (snd (LittleFS_remove path w)) = notified w"
  by (simp_all add: LittleFS_remove_def)

lemma write_currentFile_fields [simp]:
  "deviceConnected (snd (write_currentFile b c w)) = deviceConnected w"
  "currentState (snd (write_currentFile b c w)) = currentState w"
  "currentFilename (snd (write_currentFile b c w)) = currentFilename w"
  "currentFile (snd (write_currentFile b c w)) = currentFile w"
  "expectedFileSize (snd (write_currentFile b c w)) = expectedFileSize w"
  "transferredBytes (snd (write_currentFile b c w)) = transferredBytes w"
  "expectedChunks (snd (write_currentFile b c w)) = expectedChunks w"
  "receivedChunks (snd (write_currentFile b c w)) = receivedChunks w"
  "notified (snd (write_currentFile b c w)) = notified w"
  by (simp_all add: write_currentFile_def Let_def split: option.splits)

lemma write_currentFile_cases:
  obtains written w1 where "write_currentFile buffer cap w = (written, w1)"
    and "deviceConnected w1 = deviceConnected w" and "currentState w1 = currentState w"
    and "currentFilename w1 = currentFilename w" and "currentFile w1 = currentFile w"
    and "expectedFileSize w1 = expectedFileSize w" and "transferredBytes w1 = transferredBytes w"
    and "expectedChunks w1 = expectedChunks w" and "receivedChunks w1 = receivedChunks w"
    and "notified w1 = notified w"
proof -
  obtain written w1 where eq: "write_currentFile buffer cap w = (written, w1)"
    by (cases "write_currentFile buffer cap w")
  then have "w1 = snd (write_currentFile buffer cap w)" by simp
  with eq that show thesis by simp
qed

lemma session_simps [simp]:
  "session (sendResponse r w) = session w"
  "session (sendProgress p w) = session w"
  "session (w\<lparr>notified := ns\<rparr>) = session w"
  "session (w\<lparr>littlefs := fs\<rparr>) = session w"
  "session (w\<lparr>deviceConnected := c\<rparr>) = session w"
  by (simp_all add: session_def)

lemma listFiles_session [simp]: "session (listFiles w) = session w"
proof -
  have "session (foldl (\<lambda>acc (path, bytes). sendResponse (g path bytes) acc) v xs) = session v"
    for g :: "string \<Rightarrow> byte list \<Rightarrow> string" and v :: device and xs
    by (induction xs arbitrary: v) (auto simp: case_prod_beta)
  then show ?thesis
    by (simp add: listFiles_def Let_def)
qed

lemma deleteFile_session [simp]: "session (deleteFile name w) = session w"
  by (simp add: deleteFile_def Let_def LittleFS_remove_def)

lemma onDisconnect_fields [simp]:
  "currentState (onDisconnect w) = STATE_IDLE"
  "currentFile (onDisconnect w) = (if currentState w = STATE_IDLE then currentFile w else None)"
  "notified (onDisconnect w) = notified w"
  by (simp_all add: onDisconnect_def Let_def)

lemma finishUpload_fields:
  "currentState (finishUpload w) = STATE_IDLE"
  "currentFile (finishUpload w) = None"
  "deviceConnected (finishUpload w) = deviceConnected w"
  by (simp_all add: finishUpload_def Let_def)

lemma finishUpload_report:
  "deviceConnected w \<Longrightarrow> ends_with_report (notified (finishUpload w))"
  by (simp add: finishUpload_def Let_def ends_with_report_def sendResponse_def sendProgress_def
      startsWith_def)

section \<open>The example sessions\<close>

lemma connected_device_eq:
  "connected_device =
     \<lparr>deviceConnected = True, currentState = STATE_IDLE, currentFilename = [],
      currentFile = None, expectedFileSize = 0, transferredBytes = 0, expectedChunks = 0,
      receivedChunks = 0, littlefs = [], notified = []\<rparr>"
  by (simp add: connected_device_def onConnect_def boot_def)

lemma started_upload_eq:
  "S \<le> free \<Longrightarrow> startUpload ''a.bin'' S free True connected_device =
     \<lparr>deviceConnected = True, currentState = STATE_UPLOADING, currentFilename = ''/a.bin'',
      currentFile = Some ''/a.bin'', expectedFileSize = S, transferredBytes = 0,
      expectedChunks = ucast ((S + 199) div 200), receivedChunks = 0,
      littlefs = [(''/a.bin'', [])],
      notified = [Response (''OK:UPLOAD_READY'' @ [CHR 0x0A]), Progress 0]\<rparr>"
  by (simp add: startUpload_def connected_device_eq with_slash_def startsWith_def
      LittleFS_exists_def open_currentFile_def sendResponse_def sendProgress_def
      CHUNK_SIZE_def Let_def not_less [symmetric] add.commute)

lemma uploading_device_eq:
  "uploading_device =
     \<lparr>deviceConnected = True, currentState = STATE_UPLOADING, currentFilename = ''/a.bin'',
      currentFile = Some ''/a.bin'', expectedFileSize = 300, transferredBytes = 0,
      expectedChunks = 2, receivedChunks = 0, littlefs = [(''/a.bin'', [])],
      notified = [Response (''OK:UPLOAD_READY'' @ [CHR 0x0A]), Progress 0]\<rparr>"
  unfolding uploading_device_def by (subst started_upload_eq) simp_all

lemma empty_upload_eq:
  "empty_upload =
     \<lparr>deviceConnected = True, currentState = STATE_UPLOADING, currentFilename = ''/a.bin'',
      currentFile = Some ''/a.bin'', expectedFileSize = 0, transferredBytes = 0,
      expectedChunks = 0, receivedChunks = 0, littlefs = [(''/a.bin'', [])],
      notified = [Response (''OK:UPLOAD_READY'' @ [CHR 0x0A]), Progress 0]\<rparr>"
  unfolding empty_upload_def by (subst started_upload_eq) simp_all

lemma one_byte_upload_eq:
  "one_byte_upload =
     \<lparr>deviceConnected = True, currentState = STATE_UPLOADING, currentFilename = ''/a.bin'',
      currentFile = Some ''/a.bin'', expectedFileSize = 1, transferredBytes = 0,
      expectedChunks = 1, receivedChunks = 0, littlefs = [(''/a.bin'', [])],
      notified = [Response (''OK:UPLOAD_READY'' @ [CHR 0x0A]), Progress 0]\<rparr>"
  unfolding one_byte_upload_def by (subst started_upload_eq) simp_all

lemma large_upload_eq:
  "large_upload =
     \<lparr>deviceConnected = True, currentState = STATE_UPLOADING, currentFilename = ''/a.bin'',
      currentFile = Some ''/a.bin'', expectedFileSize = 13107200, transferredBytes = 0,
      expectedChunks = 0, receivedChunks = 0, littlefs = [(''/a.bin'', [])],
      notified = [Response (''OK:UPLOAD_READY'' @ [CHR 0x0A]), Progress 0]\<rparr>"
  unfolding large_upload_def by (subst started_upload_eq) simp_all

lemma reachable_connected_device: "reachable connected_device"
proof -
  have "handle Connect (boot []) = Inr connected_device"
    by (simp add: connected_device_def)
  with at_boot [of "[]"] show ?thesis by (rule after_event)
qed

lemma reachable_started_upload:
  "reachable (startUpload ''a.bin'' S free True connected_device)"
proof -
  have "handle (Write (UploadStart ''a.bin'' S)
                  \<lparr>freeSpace = free, opens = True, reopens = True, capacity = 0\<rparr>)
          connected_device
        = Inr (startUpload ''a.bin'' S free True connected_device)"
    by simp
  with reachable_connected_device show ?thesis by (rule after_event)
qed

lemma downloading_device_eq:
  "downloading_device =
     \<lparr>deviceConnected = True, currentState = STATE_DOWNLOADING, currentFilename = ''/a.bin'',
      currentFile = None, expectedFileSize = 3, transferredBytes = 0, expectedChunks = 0,
      receivedChunks = 0, littlefs = [(''/a.bin'', [1, 2, 3])], notified = []\<rparr>"
  by (simp add: downloading_device_def stored_device_def downloading_def boot_def onConnect_def)

section \<open>Statements and handlers\<close>

lemma execute_simps [simp]:
  "execute [] w = w"
  "execute (f # fs) w = execute fs (f w)"
  by (simp_all add: execute_def)

lemma execute_append: "execute (xs @ ys) w = execute ys (execute xs w)"
  by (simp add: execute_def)

lemma start_in_passes: "w \<in> set (passes w fs)"
  by (cases fs) simp_all

lemma passes_not_empty: "passes w fs \<noteq> []"
  by (cases fs) simp_all

lemma last_passes: "last (passes w fs) = execute fs w"
  by (induction fs arbitrary: w) (simp_all add: passes_not_empty)

lemma passes_append:
  "set (passes w (xs @ ys)) = set (passes w xs) \<union> set (passes (execute xs w) ys)"
  by (induction xs arbitrary: w) (auto simp: start_in_passes)

lemma transitions_append:
  "transitions w (xs @ ys) = transitions w xs @ transitions (execute xs w) ys"
  by (induction xs arbitrary: w) simp_all

lemma transitions_by_statement:
  "(u, v) \<in> set (transitions w fs) \<Longrightarrow> \<exists>f\<in>set fs. v = f u"
  by (induction fs arbitrary: w) auto

lemma passes_take: "execute (take n fs) w \<in> set (passes w fs)"
proof (induction fs arbitrary: w n)
  case Nil
  show ?case by simp
next
  case (Cons f fs)
  show ?case
  proof (cases n)
    case 0
    then show ?thesis by simp
  next
    case (Suc m)
    with Cons [of m "f w"] show ?thesis by simp
  qed
qed

lemma transitions_take:
  "n < length fs \<Longrightarrow>
     (execute (take n fs) w, execute (take (Suc n) fs) w) \<in> set (transitions w fs)"
proof (induction fs arbitrary: w n)
  case Nil
  then show ?case by simp
next
  case (Cons f fs)
  show ?case
  proof (cases n)
    case 0
    then show ?thesis by simp
  next
    case (Suc m)
    with Cons.prems have "m < length fs" by simp
    from Cons.IH [OF this, of "f w"] Suc show ?thesis by simp
  qed
qed

lemma passes_invariant:
  assumes "J w" and "\<forall>f\<in>set fs. \<forall>s. J s \<longrightarrow> J (f s)" and "v \<in> set (passes w fs)"
  shows "J v"
  using assms by (induction fs arbitrary: w) auto

text \<open>The statements of a handler, executed in order, end in the state the handler returns.\<close>

lemma execute_resetTransferState_steps:
  "execute resetTransferState_steps w = resetTransferState w"
  by (simp add: resetTransferState_steps_def resetTransferState_def)

lemma execute_startUpload_steps:
  "execute (startUpload_steps name fileSize free ok w) w = startUpload name fileSize free ok w"
  by (simp add: startUpload_steps_def startUpload_def Let_def execute_append
      open_currentFile_def LittleFS_remove_def)

lemma execute_finishUpload_steps:
  "execute finishUpload_steps w = finishUpload w"
  by (simp add: finishUpload_steps_def finishUpload_def Let_def execute_append
      execute_resetTransferState_steps)

lemma execute_receiveChunk_steps:
  assumes "receiveChunk base64Data cap w = Inr w'"
  shows "execute (receiveChunk_steps base64Data cap w) w = w'"
proof (cases "currentState w = STATE_UPLOADING")
  case False
  with assms show ?thesis by (auto simp: receiveChunk_def receiveChunk_steps_def)
next
  case up: True
  obtain decodedLen buffer
    where dec: "decodeBase64 base64Data (CHUNK_SIZE + 10) = (decodedLen, buffer)"
    by (cases "decodeBase64 base64Data (CHUNK_SIZE + 10)")
  show ?thesis
  proof (cases "decodedLen = 0")
    case True
    with assms up dec show ?thesis by (auto simp: receiveChunk_def receiveChunk_steps_def)
  next
    case nz: False
    obtain written w1 where wr: "write_currentFile buffer cap w = (written, w1)"
      and same: "expectedFileSize w1 = expectedFileSize w" "transferredBytes w1 = transferredBytes w"
        "expectedChunks w1 = expectedChunks w" "receivedChunks w1 = receivedChunks w"
      by (rule write_currentFile_cases)
    show ?thesis
    proof (cases "written = decodedLen")
      case False
      with assms up dec nz wr show ?thesis
        by (auto simp: receiveChunk_def receiveChunk_steps_def Let_def execute_append
            execute_resetTransferState_steps)
    next
      case True
      show ?thesis
      proof (cases "receivedChunks w + 1 \<ge> expectedChunks w
                      \<or> transferredBytes w + of_nat written \<ge> expectedFileSize w")
        case fin: True
        with assms up dec nz wr True same show ?thesis
          by (auto simp: receiveChunk_def receiveChunk_steps_def Let_def execute_append
              execute_finishUpload_steps split: if_splits)
      next
        case more: False
        with assms up dec nz wr True same show ?thesis
          by (auto simp: receiveChunk_def receiveChunk_steps_def Let_def execute_append
              split: if_splits)
      qed
    qed
  qed
qed

lemma take_chunk_empty: "take CHUNK_SIZE unread = [] \<longleftrightarrow> unread = []"
  by (simp add: CHUNK_SIZE_def)

lemma CHUNK_SIZE_positive: "0 < CHUNK_SIZE"
  by (simp add: CHUNK_SIZE_def)

lemma execute_send_chunks_steps:
  "send_chunks unread chunkNum totalChunks totalSize w =
     (if totalSize = 0 \<and> unread \<noteq> [] then Inl IntegerDivideByZero
      else Inr (execute (send_chunks_steps unread chunkNum totalChunks totalSize) w))"
proof (induction unread chunkNum totalChunks totalSize w rule: send_chunks.induct)
  case (1 unread chunkNum totalChunks totalSize w)
  show ?case
  proof (cases "unread = []")
    case True
    then show ?thesis
      by (simp add: send_chunks.simps [of "[]"] send_chunks_steps.simps [of "[]"])
  next
    case False
    then have ne: "take CHUNK_SIZE unread \<noteq> []"
      using take_chunk_empty [of unread] by blast
    show ?thesis
    proof (cases "totalSize = 0")
      case True
      with False ne show ?thesis
        by (simp add: send_chunks.simps [of unread] Let_def CHUNK_SIZE_positive)
    next
      case nz: False
      have len: "length (take CHUNK_SIZE unread) \<noteq> 0" using ne by simp
      define w1 where "w1 = sendResponse
          (''CHUNK:'' @ String_of (unat chunkNum) @ '':'' @ encodeBase64 (take CHUNK_SIZE unread)) w"
      define w2 where "w2 = w1\<lparr>transferredBytes :=
          transferredBytes w1 + of_nat (length (take CHUNK_SIZE unread))\<rparr>"
      define w3 where "w3 = (if (chunkNum + 1) mod 5 = 0 \<or> chunkNum + 1 \<ge> totalChunks
          then sendProgress (ucast ((transferredBytes w2 * 100) div totalSize)) w2 else w2)"
      have IH: "send_chunks (drop CHUNK_SIZE unread) (chunkNum + 1) totalChunks totalSize w3 =
          (if totalSize = 0 \<and> drop CHUNK_SIZE unread \<noteq> [] then Inl IntegerDivideByZero
           else Inr (execute
             (send_chunks_steps (drop CHUNK_SIZE unread) (chunkNum + 1) totalChunks totalSize) w3))"
        unfolding w3_def w2_def w1_def
        by (rule "1.IH" [OF False refl len refl refl refl refl nz refl refl])
      have lhs: "send_chunks unread chunkNum totalChunks totalSize w =
          send_chunks (drop CHUNK_SIZE unread) (chunkNum + 1) totalChunks totalSize w3"
        using False len nz
        by (subst send_chunks.simps) (simp only: Let_def w3_def w2_def w1_def if_False)
      have rhs: "execute (send_chunks_steps unread chunkNum totalChunks totalSize) w =
          execute (send_chunks_steps (drop CHUNK_SIZE unread) (chunkNum + 1) totalChunks totalSize) w3"
        using False len nz
        by (subst send_chunks_steps.simps)
           (simp only: Let_def w3_def w2_def w1_def if_False execute_append execute_simps append_Cons
              append_Nil)
      show ?thesis
        using lhs rhs IH nz by simp
    qed
  qed
qed

lemma execute_sendFileInChunks_steps:
  "sendFileInChunks filename ok w = Inr w'
     \<Longrightarrow> execute (sendFileInChunks_steps filename ok w) w = w'"
  by (auto simp: sendFileInChunks_def sendFileInChunks_steps_def Let_def execute_append
      execute_send_chunks_steps execute_resetTransferState_steps split: if_splits)

lemma sendFileInChunks_steps_storage:
  "littlefs v = littlefs w \<Longrightarrow> sendFileInChunks_steps filename ok v = sendFileInChunks_steps filename ok w"
  by (simp add: sendFileInChunks_steps_def)

lemma execute_startDownload_steps:
  assumes "startDownload name ok ok2 w = Inr w'"
  shows "execute (startDownload_steps name ok ok2 w) w = w'"
proof (cases "currentState w = STATE_IDLE \<and> LittleFS_exists (littlefs w) (with_slash name) \<and> ok")
  case False
  with assms show ?thesis
    by (auto simp: startDownload_def startDownload_steps_def Let_def)
next
  case True
  let ?f = "with_slash name"
  let ?w2 = "sendResponse (''DOWNLOAD_START:''
      @ (if startsWith ?f ''/'' then drop 1 ?f else ?f) @ '':''
      @ String_of (unat (file_size (littlefs w) ?f))) (downloading ?f (file_size (littlefs w) ?f) w)"
  have run: "sendFileInChunks ?f ok2 ?w2 = Inr w'"
    using assms True by (simp add: startDownload_def Let_def)
  have "littlefs ?w2 = littlefs w" by (simp add: downloading_def)
  then have "sendFileInChunks_steps ?f ok2 ?w2 = sendFileInChunks_steps ?f ok2 w"
    by (rule sendFileInChunks_steps_storage)
  with execute_sendFileInChunks_steps [OF run]
  have "execute (sendFileInChunks_steps ?f ok2 w) ?w2 = w'" by simp
  then show ?thesis
    using True by (simp add: startDownload_steps_def Let_def execute_append downloading_def)
qed

lemma execute_deleteFile_steps: "execute (deleteFile_steps name w) w = deleteFile name w"
  by (simp add: deleteFile_steps_def deleteFile_def Let_def LittleFS_remove_def)

lemma execute_listFiles_steps: "execute (listFiles_steps w) w = listFiles w"
proof -
  have "foldl (\<lambda>s f. f s) v (map (\<lambda>(path, bytes). sendResponse (g path bytes)) xs)
          = foldl (\<lambda>acc (path, bytes). sendResponse (g path bytes) acc) v xs"
    for g :: "string \<Rightarrow> byte list \<Rightarrow> string" and v :: device and xs
    by (induction xs arbitrary: v) (auto simp: case_prod_beta)
  then show ?thesis
    by (simp add: listFiles_steps_def listFiles_def Let_def execute_def)
qed

lemma execute_onDisconnect_steps: "execute (onDisconnect_steps w) w = onDisconnect w"
  by (simp add: onDisconnect_steps_def onDisconnect_def Let_def execute_append
      execute_resetTransferState_steps)

lemma execute_handle_steps:
  assumes "handle e w = Inr w'"
  shows "execute (handle_steps e w) w = w'"
proof (cases e)
  case Connect
  with assms show ?thesis by (auto simp: onConnect_def)
next
  case Disconnect
  with assms show ?thesis by (auto simp: execute_onDisconnect_steps)
next
  case (Write cmd env)
  with assms show ?thesis
    by (cases cmd)
       (auto simp: execute_listFiles_steps execute_deleteFile_steps execute_startUpload_steps
          execute_receiveChunk_steps execute_startDownload_steps)
qed

section \<open>Inside the handlers\<close>

text \<open>No statement outside \<^verbatim>\<open>startDownload\<close> sets the phase to Downloading.\<close>

lemma resetTransferState_steps_phase:
  "f \<in> set resetTransferState_steps \<Longrightarrow> currentState s \<noteq> STATE_DOWNLOADING
     \<Longrightarrow> currentState (f s) \<noteq> STATE_DOWNLOADING"
  by (auto simp: resetTransferState_steps_def)

lemma startUpload_steps_phase:
  "f \<in> set (startUpload_steps name fileSize free ok w) \<Longrightarrow> currentState s \<noteq> STATE_DOWNLOADING
     \<Longrightarrow> currentState (f s) \<noteq> STATE_DOWNLOADING"
  by (auto simp: startUpload_steps_def Let_def open_currentFile_def split: if_splits)

lemma finishUpload_steps_phase:
  "f \<in> set finishUpload_steps \<Longrightarrow> currentState s \<noteq> STATE_DOWNLOADING
     \<Longrightarrow> currentState (f s) \<noteq> STATE_DOWNLOADING"
  by (auto simp: finishUpload_steps_def split: if_splits dest: resetTransferState_steps_phase)

lemma receiveChunk_steps_phase:
  "f \<in> set (receiveChunk_steps base64Data cap w) \<Longrightarrow> currentState s \<noteq> STATE_DOWNLOADING
     \<Longrightarrow> currentState (f s) \<noteq> STATE_DOWNLOADING"
  by (auto simp: receiveChunk_steps_def Let_def split: if_splits prod.splits
      dest: resetTransferState_steps_phase finishUpload_steps_phase)

lemma deleteFile_steps_phase:
  "f \<in> set (deleteFile_steps name w) \<Longrightarrow> currentState s \<noteq> STATE_DOWNLOADING
     \<Longrightarrow> currentState (f s) \<noteq> STATE_DOWNLOADING"
  by (auto simp: deleteFile_steps_def Let_def split: if_splits)

lemma listFiles_steps_phase:
  "f \<in> set (listFiles_steps w) \<Longrightarrow> currentState s \<noteq> STATE_DOWNLOADING
     \<Longrightarrow> currentState (f s) \<noteq> STATE_DOWNLOADING"
  by (auto simp: listFiles_steps_def)

lemma onDisconnect_steps_phase:
  "f \<in> set (onDisconnect_steps w) \<Longrightarrow> currentState s \<noteq> STATE_DOWNLOADING
     \<Longrightarrow> currentState (f s) \<noteq> STATE_DOWNLOADING"
  by (auto simp: onDisconnect_steps_def split: if_splits dest: resetTransferState_steps_phase)

text \<open>No statement of \<^verbatim>\<open>startDownload\<close> and \<^verbatim>\<open>sendFileInChunks\<close> opens \<^verbatim>\<open>currentFile\<close>.\<close>

lemma resetTransferState_steps_closed:
  "f \<in> set resetTransferState_steps \<Longrightarrow> currentFile s = None \<Longrightarrow> currentFile (f s) = None"
  by (auto simp: resetTransferState_steps_def)

lemma send_chunks_steps_closed:
  "f \<in> set (send_chunks_steps unread chunkNum totalChunks totalSize)
     \<Longrightarrow> currentFile (f s) = currentFile s \<and> currentState (f s) = currentState s"
proof (induction unread chunkNum totalChunks totalSize arbitrary: f s rule: send_chunks_steps.induct)
  case (1 unread chunkNum totalChunks totalSize)
  from "1.prems" show ?case
    by (subst (asm) send_chunks_steps.simps)
       (auto simp: Let_def split: if_splits dest: "1.IH" [OF _ refl _ _, rotated -1])
qed

lemma sendFileInChunks_steps_closed:
  "f \<in> set (sendFileInChunks_steps filename ok w) \<Longrightarrow> currentFile s = None
     \<Longrightarrow> currentFile (f s) = None"
  by (auto simp: sendFileInChunks_steps_def Let_def send_chunks_steps_closed split: if_splits
      dest: resetTransferState_steps_closed)

lemma startDownload_steps_closed:
  "f \<in> set (startDownload_steps name ok ok2 w) \<Longrightarrow> currentFile s = None
     \<Longrightarrow> currentFile (f s) = None"
  by (auto simp: startDownload_steps_def Let_def split: if_splits
      dest: sendFileInChunks_steps_closed)

lemma handle_steps_downloading_closed:
  assumes start: "currentFile w \<noteq> None \<longleftrightarrow> currentState w = STATE_UPLOADING"
      "currentState w \<noteq> STATE_DOWNLOADING"
    and v: "v \<in> set (passes w (handle_steps e w))"
    and down: "currentState v = STATE_DOWNLOADING"
  shows "currentFile v = None"
proof (cases "\<exists>name env. e = Write (Download name) env \<and> currentState w = STATE_IDLE")
  case True
  then obtain name env where e: "e = Write (Download name) env"
    and idle: "currentState w = STATE_IDLE" by blast
  have closed: "currentFile w = None" using start idle by auto
  have "\<forall>f\<in>set (handle_steps e w). \<forall>s. currentFile s = None \<longrightarrow> currentFile (f s) = None"
    using e by (auto dest: startDownload_steps_closed)
  from passes_invariant [where J = "\<lambda>s. currentFile s = None", OF closed this v]
  show ?thesis .
next
  case False
  have keep: "\<forall>f\<in>set (handle_steps e w). \<forall>s. currentState s \<noteq> STATE_DOWNLOADING
      \<longrightarrow> currentState (f s) \<noteq> STATE_DOWNLOADING"
  proof (cases e)
    case Connect
    then show ?thesis by simp
  next
    case Disconnect
    then show ?thesis by (auto dest: onDisconnect_steps_phase)
  next
    case (Write cmd env)
    show ?thesis
    proof (cases cmd)
      case (Download name)
      with Write False have "currentState w \<noteq> STATE_IDLE" by simp
      with Write Download show ?thesis by (simp add: startDownload_steps_def)
    qed (use Write in \<open>auto dest: listFiles_steps_phase deleteFile_steps_phase
          startUpload_steps_phase receiveChunk_steps_phase\<close>)
  qed
  from passes_invariant [where J = "\<lambda>s. currentState s \<noteq> STATE_DOWNLOADING", OF start(2) keep v]
  show ?thesis using down by simp
qed

text \<open>
  The phase becomes Idle only in \<^verbatim>\<open>resetTransferState\<close>, whose first statement closes
  the file.
\<close>

lemma transitions_quiet:
  assumes "(u, v) \<in> set (transitions s fs)"
    and "\<forall>f\<in>set fs. \<forall>x. currentState (f x) = STATE_IDLE \<longrightarrow> currentState x = STATE_IDLE"
    and "currentState u \<noteq> STATE_IDLE" and "currentState v = STATE_IDLE"
  shows "currentFile u = None"
  using transitions_by_statement [OF assms(1)] assms(2-4) by auto

lemma resetTransferState_steps_into_idle:
  assumes "(u, v) \<in> set (transitions s resetTransferState_steps)"
    and "currentState u \<noteq> STATE_IDLE" and "currentState v = STATE_IDLE"
  shows "currentFile u = None"
  using assms by (auto simp: resetTransferState_steps_def)

lemma startUpload_steps_into_idle:
  assumes "(u, v) \<in> set (transitions s (startUpload_steps name fileSize free ok w))"
    and "currentState u \<noteq> STATE_IDLE" and "currentState v = STATE_IDLE"
  shows "currentFile u = None"
proof -
  have "\<forall>f\<in>set (startUpload_steps name fileSize free ok w).
      \<forall>x. currentState (f x) = STATE_IDLE \<longrightarrow> currentState x = STATE_IDLE"
    by (auto simp: startUpload_steps_def Let_def open_currentFile_def split: if_splits)
  from transitions_quiet [OF assms(1) this assms(2) assms(3)] show ?thesis .
qed

lemma finishUpload_steps_into_idle:
  assumes "(u, v) \<in> set (transitions s finishUpload_steps)"
    and "currentState u \<noteq> STATE_IDLE" and "currentState v = STATE_IDLE"
  shows "currentFile u = None"
  using assms
  by (auto simp: finishUpload_steps_def transitions_append split: if_splits
      dest: resetTransferState_steps_into_idle)

lemma receiveChunk_steps_into_idle:
  assumes "(u, v) \<in> set (transitions s (receiveChunk_steps base64Data cap w))"
    and "currentState u \<noteq> STATE_IDLE" and "currentState v = STATE_IDLE"
  shows "currentFile u = None"
  using assms
  by (auto simp: receiveChunk_steps_def Let_def transitions_append split: if_splits prod.splits
      dest: resetTransferState_steps_into_idle finishUpload_steps_into_idle)

lemma sendFileInChunks_steps_into_idle:
  assumes "(u, v) \<in> set (transitions s (sendFileInChunks_steps filename ok w))"
    and "currentState u \<noteq> STATE_IDLE" and "currentState v = STATE_IDLE"
  shows "currentFile u = None"
proof -
  have loop: "\<forall>f\<in>set (send_chunks_steps unread chunkNum totalChunks totalSize).
      \<forall>x. currentState (f x) = STATE_IDLE \<longrightarrow> currentState x = STATE_IDLE"
    for unread chunkNum totalChunks totalSize
    by (simp add: send_chunks_steps_closed)
  show ?thesis
    using assms
    by (auto simp: sendFileInChunks_steps_def Let_def transitions_append split: if_splits
        dest: resetTransferState_steps_into_idle transitions_quiet [OF _ loop])
qed

lemma startDownload_steps_into_idle:
  assumes "(u, v) \<in> set (transitions s (startDownload_steps name ok ok2 w))"
    and "currentState u \<noteq> STATE_IDLE" and "currentState v = STATE_IDLE"
  shows "currentFile u = None"
  using assms
  by (auto simp: startDownload_steps_def Let_def transitions_append split: if_splits
      dest: sendFileInChunks_steps_into_idle)

lemma deleteFile_steps_into_idle:
  assumes "(u, v) \<in> set (transitions s (deleteFile_steps name w))"
    and "currentState u \<noteq> STATE_IDLE" and "currentState v = STATE_IDLE"
  shows "currentFile u = None"
  using assms by (auto simp: deleteFile_steps_def Let_def split: if_splits)

lemma listFiles_steps_into_idle:
  assumes "(u, v) \<in> set (transitions s (listFiles_steps w))"
    and "currentState u \<noteq> STATE_IDLE" and "currentState v = STATE_IDLE"
  shows "currentFile u = None"
proof -
  have "\<forall>f\<in>set (listFiles_steps w).
      \<forall>x. currentState (f x) = STATE_IDLE \<longrightarrow> currentState x = STATE_IDLE"
    by (auto simp: listFiles_steps_def)
  from transitions_quiet [OF assms(1) this assms(2) assms(3)] show ?thesis .
qed

lemma onDisconnect_steps_into_idle:
  assumes "(u, v) \<in> set (transitions s (onDisconnect_steps w))"
    and "currentState u \<noteq> STATE_IDLE" and "currentState v = STATE_IDLE"
  shows "currentFile u = None"
  using assms
  by (auto simp: onDisconnect_steps_def transitions_append split: if_splits
      dest: resetTransferState_steps_into_idle)

lemma handle_steps_into_idle:
  assumes "(u, v) \<in> set (transitions s (handle_steps e w))"
    and "currentState u \<noteq> STATE_IDLE" and "currentState v = STATE_IDLE"
  shows "currentFile u = None"
proof (cases e)
  case Connect
  with assms show ?thesis by auto
next
  case Disconnect
  with assms show ?thesis by (auto dest: onDisconnect_steps_into_idle)
next
  case (Write cmd env)
  with assms show ?thesis
    by (cases cmd)
       (auto dest: listFiles_steps_into_idle deleteFile_steps_into_idle
          startUpload_steps_into_idle receiveChunk_steps_into_idle
          startDownload_steps_into_idle)
qed

section \<open>The example sessions inside handlers\<close>

lemma reachable_stored_device: "reachable stored_device"
proof -
  have "handle Connect (boot [(''/a.bin'', [1, 2, 3])]) = Inr stored_device"
    by (simp add: stored_device_def)
  with at_boot [of "[(''/a.bin'', [1, 2, 3])]"] show ?thesis
    by (rule after_event)
qed

lemma passes_through_downloading_device: "passes_through downloading_device"
proof -
  let ?e = "Write (Download ''a.bin'') example_env"
  have eq: "downloading_device = execute (take 4 (handle_steps ?e stored_device)) stored_device"
    by (simp add: downloading_device_eq stored_device_def boot_def onConnect_def example_env_def
        startDownload_steps_def with_slash_def startsWith_def LittleFS_exists_def
        file_size_def contents_def Let_def)
  have "downloading_device \<in> set (passes stored_device (handle_steps ?e stored_device))"
    by (subst eq) (rule passes_take)
  with reachable_stored_device show ?thesis by (rule in_handler)
qed

lemma opening_device_eq:
  "opening_device =
     \<lparr>deviceConnected = True, currentState = STATE_IDLE, currentFilename = [],
      currentFile = Some ''/a.bin'', expectedFileSize = 0, transferredBytes = 0,
      expectedChunks = 0, receivedChunks = 0, littlefs = [(''/a.bin'', [])], notified = []\<rparr>"
  by (simp add: opening_device_def startUpload_steps_def connected_device_eq with_slash_def
      startsWith_def LittleFS_exists_def open_currentFile_def Let_def)

lemma passes_through_opening_device: "passes_through opening_device"
proof -
  let ?e = "Write (UploadStart ''a.bin'' 300) example_env"
  have eq: "opening_device = execute (take 1 (handle_steps ?e connected_device)) connected_device"
    by (simp add: opening_device_def example_env_def)
  have "opening_device \<in> set (passes connected_device (handle_steps ?e connected_device))"
    by (subst eq) (rule passes_take)
  with reachable_connected_device show ?thesis by (rule in_handler)
qed

lemma closing_device_eq:
  "closing_device =
     \<lparr>deviceConnected = True, currentState = STATE_UPLOADING, currentFilename = ''/a.bin'',
      currentFile = None, expectedFileSize = 1, transferredBytes = 1,
      expectedChunks = 1, receivedChunks = 1, littlefs = [(''/a.bin'', [65])],
      notified = [Response (''OK:UPLOAD_READY'' @ [CHR 0x0A]), Progress 0, Progress 100,
                  Response (''ACK:1'' @ [CHR 0x0A])]\<rparr>"
proof -
  have dec: "decodeBase64 ''QQ=='' (CHUNK_SIZE + 10) = (1, [65])"
    by (simp add: decodeBase64_def mbedtls_base64_decode_def decode_final_def
        dec_value_def accumulate_def BYTE_2_def CHUNK_SIZE_def)
  have one: "String_of (Suc 0) = ''1''" by code_simp
  show ?thesis
    by (simp add: closing_device_def receiveChunk_steps_def dec one_byte_upload_eq
        write_currentFile_def contents_def finishUpload_steps_def sendProgress_def
        sendResponse_def one Let_def)
qed

lemma passes_through_closing_device: "passes_through closing_device"
proof -
  let ?e = "Write (UploadChunk ''QQ=='') example_env"
  have "reachable one_byte_upload"
    unfolding one_byte_upload_def by (rule reachable_started_upload)
  have eq: "closing_device = execute (take 6 (handle_steps ?e one_byte_upload)) one_byte_upload"
    by (simp add: closing_device_def example_env_def)
  have "closing_device \<in> set (passes one_byte_upload (handle_steps ?e one_byte_upload))"
    by (subst eq) (rule passes_take)
  with \<open>reachable one_byte_upload\<close> show ?thesis by (rule in_handler)
qed

lemma onDisconnect_steps_uploading_device:
  "onDisconnect_steps uploading_device =
     [\<lambda>s. s\<lparr>deviceConnected := False\<rparr>, \<lambda>s. s\<lparr>currentFile := None\<rparr>,
      \<lambda>s. snd (LittleFS_remove (currentFilename s) s)] @ resetTransferState_steps"
  by (simp add: onDisconnect_steps_def uploading_device_eq LittleFS_exists_def)

lemma disconnecting_device_eq:
  "disconnecting_device =
     \<lparr>deviceConnected = False, currentState = STATE_UPLOADING, currentFilename = ''/a.bin'',
      currentFile = None, expectedFileSize = 300, transferredBytes = 0,
      expectedChunks = 2, receivedChunks = 0, littlefs = [],
      notified = [Response (''OK:UPLOAD_READY'' @ [CHR 0x0A]), Progress 0]\<rparr>"
  unfolding disconnecting_device_def onDisconnect_steps_uploading_device
  by (simp add: resetTransferState_steps_def uploading_device_eq LittleFS_remove_def)

lemma disconnected_device_eq:
  "disconnected_device = disconnecting_device\<lparr>currentState := STATE_IDLE\<rparr>"
  unfolding disconnected_device_def disconnecting_device_def onDisconnect_steps_uploading_device
  by (simp add: resetTransferState_steps_def)

lemma disconnect_transition:
  "(disconnecting_device, disconnected_device)
     \<in> set (transitions uploading_device (handle_steps Disconnect uploading_device))"
proof -
  have "4 < length (onDisconnect_steps uploading_device)"
    by (simp add: onDisconnect_steps_uploading_device resetTransferState_steps_def)
  from transitions_take [OF this, of uploading_device] show ?thesis
    by (simp add: disconnecting_device_def disconnected_device_def)
qed

section \<open>Invariants of the session\<close>

lemma sendFileInChunks_idle:
  "sendFileInChunks filename ok w = Inr w'
    \<Longrightarrow> currentState w' = STATE_IDLE \<and> currentFile w' = None"
  by (auto simp: sendFileInChunks_def Let_def split: if_splits sum.splits)

lemma startDownload_cases:
  assumes "startDownload name ok ok2 w = Inr w'"
  shows "(currentState w' = STATE_IDLE \<and> currentFile w' = None) \<or> session w' = session w"
  using assms
  by (auto simp: startDownload_def Let_def split: if_splits dest: sendFileInChunks_idle)

lemma startUpload_cases:
  "session (startUpload name fileSize free ok w) = session w
   \<or> (currentState w = STATE_IDLE
        \<and> currentState (startUpload name fileSize free ok w) = STATE_IDLE
        \<and> currentFile (startUpload name fileSize free ok w) = None)
   \<or> (currentState w = STATE_IDLE
        \<and> currentState (startUpload name fileSize free ok w) = STATE_UPLOADING
        \<and> currentFile (startUpload name fileSize free ok w) = Some (with_slash name)
        \<and> transferredBytes (startUpload name fileSize free ok w) = 0
        \<and> expectedFileSize (startUpload name fileSize free ok w) = fileSize)"
  by (auto simp: startUpload_def Let_def open_currentFile_def)

lemma receiveChunk_cases:
  assumes "receiveChunk base64Data cap w = Inr w'"
  shows "session w' = session w
       \<or> (currentState w' = STATE_IDLE \<and> currentFile w' = None)
       \<or> (currentState w = STATE_UPLOADING \<and> currentState w' = STATE_UPLOADING
            \<and> currentFile w' = currentFile w \<and> currentFile w \<noteq> None
            \<and> expectedFileSize w' = expectedFileSize w
            \<and> transferredBytes w' < expectedFileSize w')"
proof (cases "currentState w = STATE_UPLOADING")
  case False
  with assms show ?thesis by (auto simp: receiveChunk_def)
next
  case up: True
  obtain decodedLen buffer
    where dec: "decodeBase64 base64Data (CHUNK_SIZE + 10) = (decodedLen, buffer)"
    by (cases "decodeBase64 base64Data (CHUNK_SIZE + 10)")
  show ?thesis
  proof (cases "decodedLen = 0")
    case True
    with assms up dec show ?thesis by (auto simp: receiveChunk_def)
  next
    case nz: False
    obtain written w1 where wr: "write_currentFile buffer cap w = (written, w1)"
      and same: "currentState w1 = currentState w" "currentFile w1 = currentFile w"
        "expectedFileSize w1 = expectedFileSize w"
      by (rule write_currentFile_cases)
    show ?thesis
    proof (cases "written = decodedLen")
      case False
      with assms up dec nz wr show ?thesis by (auto simp: receiveChunk_def)
    next
      case True
      have "currentFile w \<noteq> None"
        using wr True nz by (auto simp: write_currentFile_def split: option.splits)
      with assms up dec nz wr True same show ?thesis
        by (auto simp: receiveChunk_def Let_def finishUpload_def not_le split: if_splits)
    qed
  qed
qed

text \<open>
  Two properties that every handler keeps: the session's handle is open exactly in an
  upload, and an active session has not passed its declared size.
\<close>

lemma handle_keeps_open_iff_uploading:
  assumes "currentFile w \<noteq> None \<longleftrightarrow> currentState w = STATE_UPLOADING"
    and "handle e w = Inr w'"
  shows "currentFile w' \<noteq> None \<longleftrightarrow> currentState w' = STATE_UPLOADING"
proof (cases e)
  case Connect
  with assms show ?thesis by (auto simp: onConnect_def)
next
  case Disconnect
  with assms show ?thesis by (auto split: if_splits)
next
  case (Write cmd env)
  show ?thesis
  proof (cases cmd)
    case List
    with Write assms listFiles_session [of w] show ?thesis by (auto simp: session_def)
  next
    case (Delete name)
    with Write assms deleteFile_session [of name w] show ?thesis by (auto simp: session_def)
  next
    case (UploadStart name fileSize)
    with Write assms startUpload_cases [of name fileSize "freeSpace env" "opens env" w]
    show ?thesis by (auto simp: session_def)
  next
    case InvalidUpload
    with Write assms show ?thesis by auto
  next
    case (UploadChunk base64Data)
    with Write assms receiveChunk_cases [of base64Data "capacity env" w w']
    show ?thesis by (auto simp: session_def)
  next
    case (Download name)
    with Write assms startDownload_cases [of name "opens env" "reopens env" w w']
    show ?thesis by (auto simp: session_def)
  next
    case Ping
    with Write assms show ?thesis by auto
  next
    case Unknown
    with Write assms show ?thesis by auto
  qed
qed

lemma reachable_open_iff_uploading:
  "reachable w \<Longrightarrow> (currentFile w \<noteq> None \<longleftrightarrow> currentState w = STATE_UPLOADING)"
proof (induction rule: reachable.induct)
  case (at_boot fs)
  show ?case by (simp add: boot_def)
next
  case (after_event w e w')
  from after_event.IH after_event.hyps(2) show ?case
    by (rule handle_keeps_open_iff_uploading)
qed

lemma handle_keeps_not_downloading:
  assumes "currentState w \<noteq> STATE_DOWNLOADING" and "handle e w = Inr w'"
  shows "currentState w' \<noteq> STATE_DOWNLOADING"
proof (cases e)
  case Connect
  with assms show ?thesis by (auto simp: onConnect_def)
next
  case Disconnect
  with assms show ?thesis by auto
next
  case (Write cmd env)
  show ?thesis
  proof (cases cmd)
    case List
    with Write assms listFiles_session [of w] show ?thesis by (auto simp: session_def)
  next
    case (Delete name)
    with Write assms deleteFile_session [of name w] show ?thesis by (auto simp: session_def)
  next
    case (UploadStart name fileSize)
    with Write assms startUpload_cases [of name fileSize "freeSpace env" "opens env" w]
    show ?thesis by (auto simp: session_def)
  next
    case InvalidUpload
    with Write assms show ?thesis by auto
  next
    case (UploadChunk base64Data)
    with Write assms receiveChunk_cases [of base64Data "capacity env" w w']
    show ?thesis by (auto simp: session_def)
  next
    case (Download name)
    with Write assms startDownload_cases [of name "opens env" "reopens env" w w']
    show ?thesis by (auto simp: session_def)
  next
    case Ping
    with Write assms show ?thesis by auto
  next
    case Unknown
    with Write assms show ?thesis by auto
  qed
qed

lemma reachable_never_downloading: "reachable w \<Longrightarrow> currentState w \<noteq> STATE_DOWNLOADING"
proof (induction rule: reachable.induct)
  case (at_boot fs)
  show ?case by (simp add: boot_def)
next
  case (after_event w e w')
  from after_event.IH after_event.hyps(2) show ?case
    by (rule handle_keeps_not_downloading)
qed

lemma handle_keeps_transferred_le_expected:
  assumes "currentState w \<noteq> STATE_IDLE \<longrightarrow> transferredBytes w \<le> expectedFileSize w"
    and "handle e w = Inr w'"
  shows "currentState w' \<noteq> STATE_IDLE \<longrightarrow> transferredBytes w' \<le> expectedFileSize w'"
proof (cases e)
  case Connect
  with assms show ?thesis by (auto simp: onConnect_def)
next
  case Disconnect
  with assms show ?thesis by (auto split: if_splits)
next
  case (Write cmd env)
  show ?thesis
  proof (cases cmd)
    case List
    with Write assms listFiles_session [of w] show ?thesis by (auto simp: session_def)
  next
    case (Delete name)
    with Write assms deleteFile_session [of name w] show ?thesis by (auto simp: session_def)
  next
    case (UploadStart name fileSize)
    with Write assms startUpload_cases [of name fileSize "freeSpace env" "opens env" w]
    show ?thesis by (auto simp: session_def)
  next
    case InvalidUpload
    with Write assms show ?thesis by auto
  next
    case (UploadChunk base64Data)
    with Write assms receiveChunk_cases [of base64Data "capacity env" w w']
    show ?thesis by (auto simp: session_def)
  next
    case (Download name)
    with Write assms startDownload_cases [of name "opens env" "reopens env" w w']
    show ?thesis by (auto simp: session_def)
  next
    case Ping
    with Write assms show ?thesis by auto
  next
    case Unknown
    with Write assms show ?thesis by auto
  qed
qed

lemma reachable_transferred_le_expected:
  "reachable w \<Longrightarrow> currentState w \<noteq> STATE_IDLE \<longrightarrow> transferredBytes w \<le> expectedFileSize w"
proof (induction rule: reachable.induct)
  case (at_boot fs)
  show ?case by (simp add: boot_def)
next
  case (after_event w e w')
  from after_event.IH after_event.hyps(2) show ?case
    by (rule handle_keeps_transferred_le_expected)
qed

text \<open>
  C1 (as amended). At every command boundary, that is at the start and after each event
  handled to its end, the session's file handle \<^verbatim>\<open>currentFile\<close> is open if and only
  if the phase is not Idle, and the phase there is never Downloading. Inside the handlers
  the two are set by separate statements and differ for a while; in particular, in every
  state with phase Downloading, which occur only while \<^verbatim>\<open>startDownload\<close> and
  \<^verbatim>\<open>sendFileInChunks\<close> run, the session's file handle is closed, since the download
  reads through handles local to these functions. Every statement that takes the phase
  from another value to Idle finds the handle already closed.
\<close>

theorem handle_and_phase:
  "(reachable w \<longrightarrow>
      (currentFile w \<noteq> None \<longleftrightarrow> currentState w \<noteq> STATE_IDLE)
      \<and> currentState w \<noteq> STATE_DOWNLOADING)
   \<and> (passes_through v \<and> currentState v = STATE_DOWNLOADING \<longrightarrow> currentFile v = None)
   \<and> (reachable w \<and> (u, u') \<in> set (transitions w (handle_steps e w))
        \<and> currentState u \<noteq> STATE_IDLE \<and> currentState u' = STATE_IDLE
      \<longrightarrow> currentFile u = None)"
proof (intro conjI impI)
  assume r: "reachable w"
  have "currentFile w \<noteq> None \<longleftrightarrow> currentState w = STATE_UPLOADING"
    using r by (rule reachable_open_iff_uploading)
  moreover have nd: "currentState w \<noteq> STATE_DOWNLOADING"
    using r by (rule reachable_never_downloading)
  ultimately show "currentFile w \<noteq> None \<longleftrightarrow> currentState w \<noteq> STATE_IDLE"
    by (cases "currentState w") auto
  show "currentState w \<noteq> STATE_DOWNLOADING" by (rule nd)
next
  assume "passes_through v \<and> currentState v = STATE_DOWNLOADING"
  then have p: "passes_through v" and down: "currentState v = STATE_DOWNLOADING" by simp_all
  from p obtain b e0 where b: "reachable b" and v: "v \<in> set (passes b (handle_steps e0 b))"
    by (auto elim: passes_through.cases)
  from reachable_open_iff_uploading [OF b] reachable_never_downloading [OF b] v down
  show "currentFile v = None" by (rule handle_steps_downloading_closed)
next
  assume "reachable w \<and> (u, u') \<in> set (transitions w (handle_steps e w))
        \<and> currentState u \<noteq> STATE_IDLE \<and> currentState u' = STATE_IDLE"
  then show "currentFile u = None"
    by (blast intro: handle_steps_into_idle)
qed

text \<open>
  The theorem at the upload of \<^verbatim>\<open>a.bin\<close> (a command boundary with the handle open),
  inside the download of the stored file, and at the statement that sets the phase to
  Idle when the peer disconnects during the upload.
\<close>

theorem handle_and_phase_witness:
  "reachable uploading_device
   \<and> currentState uploading_device = STATE_UPLOADING
   \<and> currentFile uploading_device \<noteq> None
   \<and> passes_through downloading_device
   \<and> currentState downloading_device = STATE_DOWNLOADING
   \<and> currentFile downloading_device = None
   \<and> (disconnecting_device, disconnected_device)
        \<in> set (transitions uploading_device (handle_steps Disconnect uploading_device))
   \<and> currentState disconnecting_device = STATE_UPLOADING
   \<and> currentState disconnected_device = STATE_IDLE
   \<and> currentFile disconnecting_device = None"
proof -
  have r: "reachable uploading_device"
    unfolding uploading_device_def by (rule reachable_started_upload)
  have up: "currentState uploading_device = STATE_UPLOADING"
    by (simp add: uploading_device_eq)
  have down: "currentState downloading_device = STATE_DOWNLOADING"
    by (simp add: downloading_device_eq)
  have before: "currentState disconnecting_device = STATE_UPLOADING"
    and after: "currentState disconnected_device = STATE_IDLE"
    by (simp_all add: disconnected_device_eq disconnecting_device_eq)
  note inst = handle_and_phase [of uploading_device downloading_device disconnecting_device
      disconnected_device Disconnect]
  have "currentFile uploading_device \<noteq> None"
    using inst r up by simp
  moreover have "currentFile downloading_device = None"
    using inst passes_through_downloading_device down by blast
  moreover have "currentFile disconnecting_device = None"
    using inst r disconnect_transition before after by simp
  ultimately show ?thesis
    using r up down before after passes_through_downloading_device disconnect_transition
    by simp
qed

text \<open>
  C1 as stated fails inside the handlers. While \<^verbatim>\<open>startDownload\<close> sends the file the
  phase is Downloading and the session's handle is closed. \<^verbatim>\<open>startUpload\<close> has the
  handle open while the phase is still Idle, and the completion of an upload has it
  closed while the phase is still Uploading.
\<close>

theorem handle_and_phase_differ:
  "passes_through downloading_device
   \<and> currentState downloading_device = STATE_DOWNLOADING
   \<and> currentFile downloading_device = None
   \<and> passes_through opening_device
   \<and> currentState opening_device = STATE_IDLE
   \<and> currentFile opening_device = Some ''/a.bin''
   \<and> passes_through closing_device
   \<and> currentState closing_device = STATE_UPLOADING
   \<and> currentFile closing_device = None"
  using passes_through_downloading_device passes_through_opening_device
    passes_through_closing_device
  by (simp add: downloading_device_eq opening_device_eq closing_device_eq)

section \<open>Rejected and failed requests\<close>

text \<open>
  C3. In every state whose phase is not Idle, an upload-start command and a download
  command answer \<^verbatim>\<open>ERROR:TRANSFER_IN_PROGRESS\<close> (notified to the peer when the
  connection flag is set) and change nothing else: phase, filename, expected size,
  transferred bytes, chunk counters and file handle are as before.
\<close>

theorem start_rejected_while_busy:
  assumes "currentState w \<noteq> STATE_IDLE"
    and "cmd = UploadStart name fileSize \<or> cmd = Download name"
  shows "handleCommand cmd env w =
           Inr (w\<lparr>notified := notified w @
                  (if deviceConnected w
                   then [Response (''ERROR:TRANSFER_IN_PROGRESS'' @ [CHR 0x0A])] else [])\<rparr>)
         \<and> session (w\<lparr>notified := notified w @
                  (if deviceConnected w
                   then [Response (''ERROR:TRANSFER_IN_PROGRESS'' @ [CHR 0x0A])] else [])\<rparr>)
             = session w"
  using assms by (auto simp: startUpload_def startDownload_def sendResponse_as_update)

text \<open>The theorem at the upload of \<^verbatim>\<open>a.bin\<close>, for both commands.\<close>

theorem start_rejected_while_busy_witness:
  "currentState uploading_device \<noteq> STATE_IDLE
   \<and> handleCommand (UploadStart ''b.bin'' 5) example_env uploading_device =
       Inr (uploading_device\<lparr>notified := notified uploading_device @
              [Response (''ERROR:TRANSFER_IN_PROGRESS'' @ [CHR 0x0A])]\<rparr>)
   \<and> handleCommand (Download ''a.bin'') example_env uploading_device =
       Inr (uploading_device\<lparr>notified := notified uploading_device @
              [Response (''ERROR:TRANSFER_IN_PROGRESS'' @ [CHR 0x0A])]\<rparr>)"
proof -
  have busy: "currentState uploading_device \<noteq> STATE_IDLE"
    by (simp add: uploading_device_eq)
  have con: "deviceConnected uploading_device"
    by (simp add: uploading_device_eq)
  show ?thesis
    using busy con
      start_rejected_while_busy [OF busy, of "UploadStart ''b.bin'' 5" "''b.bin''" 5 example_env]
      start_rejected_while_busy [OF busy, of "Download ''a.bin''" "''a.bin''" 0 example_env]
    by simp
qed

text \<open>
  C6. In phase Uploading, a chunk whose payload does not decode (\<^verbatim>\<open>decodeBase64\<close>
  returns 0) answers \<^verbatim>\<open>ERROR:DECODE_FAILED\<close> and changes no session field: the phase
  stays Uploading, transferred bytes and chunk counters are as before, and the file
  handle, open in every reachable upload, stays open.
\<close>

theorem decode_failure_keeps_session:
  assumes "currentState w = STATE_UPLOADING"
    and "fst (decodeBase64 base64Data (CHUNK_SIZE + 10)) = 0"
  shows "\<exists>w'. handleCommand (UploadChunk base64Data) env w = Inr w'
          \<and> w' = w\<lparr>notified := notified w @
                     (if deviceConnected w
                      then [Response (''ERROR:DECODE_FAILED'' @ [CHR 0x0A])] else [])\<rparr>
          \<and> session w' = session w
          \<and> currentState w' = STATE_UPLOADING
          \<and> (reachable w \<longrightarrow> currentFile w' \<noteq> None)"
proof -
  let ?w' = "w\<lparr>notified := notified w @
                (if deviceConnected w
                 then [Response (''ERROR:DECODE_FAILED'' @ [CHR 0x0A])] else [])\<rparr>"
  have "handleCommand (UploadChunk base64Data) env w = Inr ?w'"
    using assms by (auto simp: receiveChunk_def sendResponse_as_update split: prod.splits)
  moreover have "session ?w' = session w" by simp
  moreover have "currentState ?w' = STATE_UPLOADING" using assms(1) by simp
  moreover have "reachable w \<longrightarrow> currentFile ?w' \<noteq> None"
    using reachable_open_iff_uploading [of w] assms(1) by simp
  ultimately show ?thesis by blast
qed

text \<open>The theorem at the upload of \<^verbatim>\<open>a.bin\<close> and a payload outside the alphabet.\<close>

theorem decode_failure_keeps_session_witness:
  "currentState uploading_device = STATE_UPLOADING
   \<and> fst (decodeBase64 ''!!!!'' (CHUNK_SIZE + 10)) = 0
   \<and> reachable uploading_device
   \<and> (\<exists>w'. handleCommand (UploadChunk ''!!!!'') example_env uploading_device = Inr w'
          \<and> w' = uploading_device\<lparr>notified := notified uploading_device @
                     [Response (''ERROR:DECODE_FAILED'' @ [CHR 0x0A])]\<rparr>
          \<and> currentState w' = STATE_UPLOADING
          \<and> currentFile w' \<noteq> None)"
proof -
  have up: "currentState uploading_device = STATE_UPLOADING"
    by (simp add: uploading_device_eq)
  have bad: "fst (decodeBase64 ''!!!!'' (CHUNK_SIZE + 10)) = 0"
    by (simp add: decodeBase64_def mbedtls_base64_decode_def decode_final_def decode_full_def
        dec_value_def)
  have r: "reachable uploading_device"
    unfolding uploading_device_def by (rule reachable_started_upload)
  have con: "deviceConnected uploading_device"
    by (simp add: uploading_device_eq)
  show ?thesis
    using up bad r con decode_failure_keeps_session [OF up bad, of example_env]
    by auto
qed

text \<open>
  C7. In phase Uploading, when the write of a decoded chunk stores fewer bytes than were
  decoded, the handler closes the file handle, removes the file at the session's
  filename from storage, resets the session to Idle and answers
  \<^verbatim>\<open>ERROR:WRITE_FAILED\<close>.
\<close>

theorem write_failure_aborts_upload:
  assumes "currentState w = STATE_UPLOADING"
    and "decodeBase64 base64Data (CHUNK_SIZE + 10) = (decodedLen, buffer)"
    and "0 < decodedLen"
    and "fst (write_currentFile buffer (capacity env) w) < decodedLen"
  shows "\<exists>w'. handleCommand (UploadChunk base64Data) env w = Inr w'
          \<and> currentFile w' = None
          \<and> \<not> LittleFS_exists (littlefs w') (currentFilename w)
          \<and> currentState w' = STATE_IDLE
          \<and> resetTransferState w' = w'
          \<and> notified w' = notified w @
               (if deviceConnected w then [Response (''ERROR:WRITE_FAILED'' @ [CHR 0x0A])] else [])"
proof -
  obtain written w1 where wr: "write_currentFile buffer (capacity env) w = (written, w1)"
    and same: "deviceConnected w1 = deviceConnected w" "currentFilename w1 = currentFilename w"
      "notified w1 = notified w"
    by (rule write_currentFile_cases)
  let ?w' = "sendResponse ''ERROR:WRITE_FAILED''
               (resetTransferState
                 (snd (LittleFS_remove (currentFilename w1) (w1\<lparr>currentFile := None\<rparr>))))"
  from assms wr have "handleCommand (UploadChunk base64Data) env w = Inr ?w'"
    by (simp add: receiveChunk_def)
  moreover have "currentFile ?w' = None" "currentState ?w' = STATE_IDLE" by simp_all
  moreover have "\<not> LittleFS_exists (littlefs ?w') (currentFilename w)"
    using same by simp
  moreover have "resetTransferState ?w' = ?w'"
    by (simp add: resetTransferState_def sendResponse_def)
  moreover have "notified ?w' = notified w @
               (if deviceConnected w then [Response (''ERROR:WRITE_FAILED'' @ [CHR 0x0A])] else [])"
    using same by (simp add: sendResponse_notified)
  ultimately show ?thesis by blast
qed

text \<open>
  The theorem at the upload of \<^verbatim>\<open>a.bin\<close>, a chunk of three bytes and a storage that
  takes two of them.
\<close>

theorem write_failure_aborts_upload_witness:
  "currentState uploading_device = STATE_UPLOADING
   \<and> decodeBase64 ''QUJD'' (CHUNK_SIZE + 10) = (3, [65, 66, 67])
   \<and> fst (write_currentFile [65, 66, 67] (capacity short_write_env) uploading_device) = 2
   \<and> (\<exists>w'. handleCommand (UploadChunk ''QUJD'') short_write_env uploading_device = Inr w'
          \<and> currentFile w' = None
          \<and> \<not> LittleFS_exists (littlefs w') ''/a.bin''
          \<and> currentState w' = STATE_IDLE
          \<and> notified w' = notified uploading_device @
               [Response (''ERROR:WRITE_FAILED'' @ [CHR 0x0A])])"
proof -
  have up: "currentState uploading_device = STATE_UPLOADING"
    by (simp add: uploading_device_eq)
  have dec: "decodeBase64 ''QUJD'' (CHUNK_SIZE + 10) = (3, [65, 66, 67])"
    by (simp add: decodeBase64_def mbedtls_base64_decode_def decode_final_def decode_full_def
        dec_value_def accumulate_def BYTE_2_def BYTE_1_def BYTE_0_def CHUNK_SIZE_def)
  have wr: "fst (write_currentFile [65, 66, 67] (capacity short_write_env) uploading_device) = 2"
    by (simp add: write_currentFile_def uploading_device_eq short_write_env_def)
  have short: "fst (write_currentFile [65, 66, 67] (capacity short_write_env) uploading_device) < 3"
    using wr by simp
  have name: "currentFilename uploading_device = ''/a.bin''"
    and con: "deviceConnected uploading_device"
    by (simp_all add: uploading_device_eq)
  show ?thesis
    using up dec wr name con
      write_failure_aborts_upload [OF up dec _ short]
    by auto
qed

text \<open>
  C8. In every state, reachable or not, a disconnect leaves the session Idle and sends
  nothing. If the phase was Uploading, no file is left at the session's filename; if it
  was Downloading, storage is what it was.
\<close>

theorem disconnect_cleans_up:
  "\<exists>w'. handle Disconnect w = Inr w'
      \<and> currentState w' = STATE_IDLE
      \<and> (currentState w = STATE_UPLOADING
            \<longrightarrow> \<not> LittleFS_exists (littlefs w') (currentFilename w))
      \<and> (currentState w = STATE_DOWNLOADING \<longrightarrow> littlefs w' = littlefs w)
      \<and> notified w' = notified w"
  by (auto simp: onDisconnect_def Let_def)

text \<open>The theorem at an upload in progress and inside a download.\<close>

theorem disconnect_cleans_up_witness:
  "reachable uploading_device \<and> currentState uploading_device = STATE_UPLOADING
   \<and> LittleFS_exists (littlefs uploading_device) (currentFilename uploading_device)
   \<and> (\<exists>w'. handle Disconnect uploading_device = Inr w'
          \<and> currentState w' = STATE_IDLE
          \<and> \<not> LittleFS_exists (littlefs w') (currentFilename uploading_device)
          \<and> notified w' = notified uploading_device)
   \<and> passes_through downloading_device
   \<and> currentState downloading_device = STATE_DOWNLOADING
   \<and> (\<exists>w'. handle Disconnect downloading_device = Inr w'
          \<and> currentState w' = STATE_IDLE
          \<and> littlefs w' = [(''/a.bin'', [1, 2, 3])]
          \<and> notified w' = notified downloading_device)"
proof -
  have r: "reachable uploading_device"
    unfolding uploading_device_def by (rule reachable_started_upload)
  have up: "currentState uploading_device = STATE_UPLOADING"
    and there: "LittleFS_exists (littlefs uploading_device) (currentFilename uploading_device)"
    by (simp_all add: uploading_device_eq LittleFS_exists_def)
  have down: "currentState downloading_device = STATE_DOWNLOADING"
    and fs: "littlefs downloading_device = [(''/a.bin'', [1, 2, 3])]"
    by (simp_all add: downloading_device_eq)
  show ?thesis
    using r up there down fs passes_through_downloading_device
      disconnect_cleans_up [of uploading_device] disconnect_cleans_up [of downloading_device]
    by auto
qed

section \<open>The length of an upload\<close>

lemma String_of_digits:
  "String_of (Suc 0) = ''1''" "String_of 1 = ''1''" "String_of 2 = ''2''"
  by code_simp+

lemma accepted_chunk_step:
  assumes up: "currentState w = STATE_UPLOADING" and handle_open: "currentFile w \<noteq> None"
    and nz: "expectedFileSize w \<noteq> 0"
    and acc: "accepted (base64Data, cap)"
    and chunks: "unat (receivedChunks w) < 65535"
    and bytes: "unat (transferredBytes w) + 210 < 2 ^ 32"
  shows "\<exists>w'. receiveChunk base64Data cap w = Inr w' \<and> deviceConnected w' = deviceConnected w \<and>
    (if unat (expectedChunks w) \<le> unat (receivedChunks w) + 1
        \<or> unat (expectedFileSize w) \<le> unat (transferredBytes w) + decodedLength base64Data
     then currentState w' = STATE_IDLE \<and> currentFile w' = None
          \<and> (deviceConnected w \<longrightarrow> ends_with_report (notified w'))
     else currentState w' = STATE_UPLOADING \<and> currentFile w' \<noteq> None
          \<and> expectedFileSize w' = expectedFileSize w \<and> expectedChunks w' = expectedChunks w
          \<and> unat (receivedChunks w') = unat (receivedChunks w) + 1
          \<and> unat (transferredBytes w') = unat (transferredBytes w) + decodedLength base64Data)"
proof -
  obtain n buffer where dec: "decodeBase64 base64Data (CHUNK_SIZE + 10) = (n, buffer)"
    by (cases "decodeBase64 base64Data (CHUNK_SIZE + 10)")
  then have n: "n = length buffer" "n \<le> 210" "decodedLength base64Data = n"
    using decodeBase64_length [OF dec] by (simp_all add: CHUNK_SIZE_def decodedLength_def)
  from acc n have pos: "0 < n" and fits: "n \<le> cap" by (simp_all add: accepted_def)
  obtain path where path: "currentFile w = Some path" using handle_open by blast
  define w1 where "w1 = snd (write_currentFile buffer cap w)"
  have wr: "write_currentFile buffer cap w = (n, w1)"
    using path fits n by (simp add: w1_def write_currentFile_def Let_def min_def)
  have w1: "currentState w1 = STATE_UPLOADING" "currentFile w1 = Some path"
    "expectedFileSize w1 = expectedFileSize w" "expectedChunks w1 = expectedChunks w"
    "receivedChunks w1 = receivedChunks w" "transferredBytes w1 = transferredBytes w"
    "deviceConnected w1 = deviceConnected w"
    using up path by (simp_all add: w1_def)
  have rc: "unat (receivedChunks w + 1) = unat (receivedChunks w) + 1"
    using chunks by (simp add: unat_word_ariths)
  have "unat (of_nat n :: 32 word) = n"
    using n(2) by (simp add: unat_of_nat)
  then have tb: "unat (transferredBytes w + of_nat n) = unat (transferredBytes w) + n"
    using bytes n(2) by (simp add: unat_word_ariths)
  let ?w2 = "w1\<lparr>transferredBytes := transferredBytes w1 + of_nat n,
                 receivedChunks := receivedChunks w1 + 1\<rparr>"
  let ?progress = "(ucast ((transferredBytes ?w2 * 100) div expectedFileSize ?w2) :: byte)"
  let ?w3 = "(if receivedChunks ?w2 mod 10 = 0 \<or> receivedChunks ?w2 \<ge> expectedChunks ?w2
              then sendProgress ?progress ?w2 else ?w2)"
  let ?w4 = "sendResponse (''ACK:'' @ String_of (unat (receivedChunks ?w3))) ?w3"
  have w4: "currentState ?w4 = STATE_UPLOADING" "currentFile ?w4 = Some path"
    "expectedFileSize ?w4 = expectedFileSize w" "expectedChunks ?w4 = expectedChunks w"
    "receivedChunks ?w4 = receivedChunks w + 1"
    "transferredBytes ?w4 = transferredBytes w + of_nat n"
    "deviceConnected ?w4 = deviceConnected w"
    using w1 by simp_all
  have result: "receiveChunk base64Data cap w =
      (if receivedChunks ?w4 \<ge> expectedChunks ?w4 \<or> transferredBytes ?w4 \<ge> expectedFileSize ?w4
       then Inr (finishUpload ?w4) else Inr ?w4)"
    using up dec pos wr nz w1 by (simp add: receiveChunk_def Let_def)
  have cond:
    "(receivedChunks ?w4 \<ge> expectedChunks ?w4 \<or> transferredBytes ?w4 \<ge> expectedFileSize ?w4)
      \<longleftrightarrow> (unat (expectedChunks w) \<le> unat (receivedChunks w) + 1
        \<or> unat (expectedFileSize w) \<le> unat (transferredBytes w) + decodedLength base64Data)"
    unfolding w4 by (simp add: word_le_nat_alt rc tb n(3))
  show ?thesis
  proof (cases "receivedChunks ?w4 \<ge> expectedChunks ?w4
                  \<or> transferredBytes ?w4 \<ge> expectedFileSize ?w4")
    case True
    then have "receiveChunk base64Data cap w = Inr (finishUpload ?w4)"
      using result by simp
    moreover have "deviceConnected w \<longrightarrow> ends_with_report (notified (finishUpload ?w4))"
      using finishUpload_report [of ?w4] w4(7) by blast
    ultimately show ?thesis
      using True cond w4(7) by (simp add: finishUpload_fields)
  next
    case False
    then have "receiveChunk base64Data cap w = Inr ?w4"
      using result by simp
    then show ?thesis
      using False cond w4 rc tb n(3) by simp
  qed
qed

lemma upload_chunks_snoc:
  "upload_chunks (xs @ [(base64Data, cap)]) w =
     (case upload_chunks xs w of Inl f \<Rightarrow> Inl f | Inr w' \<Rightarrow> receiveChunk base64Data cap w')"
  by (induction xs arbitrary: w) (auto split: sum.splits)

lemma total_bytes_snoc:
  "total_bytes (xs @ [c]) = total_bytes xs + decodedLength (fst c)"
  by (simp add: total_bytes_def)

lemma chunks_needed_small:
  "unat S \<le> 13107000 \<Longrightarrow> chunks_needed S \<le> 65535"
  by (simp add: chunks_needed_def CHUNK_SIZE_def)

lemma expectedChunks_exact:
  assumes "unat (S :: 32 word) \<le> 13107000"
  shows "unat (ucast ((S + of_nat CHUNK_SIZE - 1) div of_nat CHUNK_SIZE) :: 16 word)
           = chunks_needed S"
proof -
  have eq: "(S + of_nat CHUNK_SIZE - 1) div of_nat CHUNK_SIZE = (199 + S) div 200"
    by (simp add: CHUNK_SIZE_def)
  have "unat (199 + S) = 199 + unat S"
    using assms by (simp add: unat_word_ariths)
  then have quot: "unat ((199 + S) div 200) = (199 + unat S) div 200"
    by (simp only: unat_div) simp
  have small: "(199 + unat S) div 200 < 65536" using assms by simp
  have "unat (ucast ((199 + S) div 200) :: 16 word) = (199 + unat S) div 200"
    using small by (simp add: unsigned_ucast_eq take_bit_eq_mod quot)
  then show ?thesis
    by (simp add: eq chunks_needed_def CHUNK_SIZE_def)
qed

lemma startUpload_started:
  assumes "currentState w = STATE_IDLE" and "fileSize \<le> free"
  shows "currentState (startUpload name fileSize free True w) = STATE_UPLOADING"
    and "currentFile (startUpload name fileSize free True w) = Some (with_slash name)"
    and "expectedFileSize (startUpload name fileSize free True w) = fileSize"
    and "transferredBytes (startUpload name fileSize free True w) = 0"
    and "receivedChunks (startUpload name fileSize free True w) = 0"
    and "expectedChunks (startUpload name fileSize free True w)
           = ucast ((fileSize + of_nat CHUNK_SIZE - 1) div of_nat CHUNK_SIZE)"
    and "deviceConnected (startUpload name fileSize free True w) = deviceConnected w"
proof -
  have "\<not> free < fileSize" using assms(2) by (simp add: not_less)
  then show "currentState (startUpload name fileSize free True w) = STATE_UPLOADING"
    and "currentFile (startUpload name fileSize free True w) = Some (with_slash name)"
    and "expectedFileSize (startUpload name fileSize free True w) = fileSize"
    and "transferredBytes (startUpload name fileSize free True w) = 0"
    and "receivedChunks (startUpload name fileSize free True w) = 0"
    and "expectedChunks (startUpload name fileSize free True w)
           = ucast ((fileSize + of_nat CHUNK_SIZE - 1) div of_nat CHUNK_SIZE)"
    and "deviceConnected (startUpload name fileSize free True w) = deviceConnected w"
    using assms(1) by (simp_all add: startUpload_def Let_def open_currentFile_def)
qed

lemma upload_run:
  assumes S: "0 < unat S" "unat S \<le> 13107000"
    and start: "currentState w0 = STATE_UPLOADING" "currentFile w0 \<noteq> None"
      "expectedFileSize w0 = S" "unat (expectedChunks w0) = chunks_needed S"
      "receivedChunks w0 = 0" "transferredBytes w0 = 0"
    and acc: "\<forall>c\<in>set chunks. accepted c"
    and open_before:
      "\<forall>j<length chunks. j < chunks_needed S \<and> total_bytes (take j chunks) < unat S"
  shows "\<exists>w'. upload_chunks chunks w0 = Inr w' \<and> deviceConnected w' = deviceConnected w0 \<and>
    (if length chunks < chunks_needed S \<and> total_bytes chunks < unat S
     then currentState w' = STATE_UPLOADING \<and> currentFile w' \<noteq> None
          \<and> expectedFileSize w' = S \<and> unat (expectedChunks w') = chunks_needed S
          \<and> unat (receivedChunks w') = length chunks
          \<and> unat (transferredBytes w') = total_bytes chunks
     else currentState w' = STATE_IDLE \<and> currentFile w' = None
          \<and> (deviceConnected w0 \<longrightarrow> ends_with_report (notified w')))"
  using acc open_before
proof (induction chunks rule: rev_induct)
  case Nil
  have "0 < chunks_needed S" using S by (simp add: chunks_needed_def CHUNK_SIZE_def)
  with S start show ?case by (simp add: total_bytes_def)
next
  case (snoc c xs)
  obtain base64Data cap where c: "c = (base64Data, cap)" by (cases c)
  have acc_c: "accepted (base64Data, cap)" using snoc.prems(1) c by simp
  have before: "length xs < chunks_needed S" "total_bytes xs < unat S"
    using snoc.prems(2) [rule_format, of "length xs"] by simp_all
  have "\<forall>j<length xs. j < chunks_needed S \<and> total_bytes (take j xs) < unat S"
  proof (intro allI impI)
    fix j assume "j < length xs"
    then show "j < chunks_needed S \<and> total_bytes (take j xs) < unat S"
      using snoc.prems(2) [rule_format, of j] by simp
  qed
  with snoc.IH snoc.prems(1) before
  obtain w1 where run: "upload_chunks xs w0 = Inr w1"
    and con: "deviceConnected w1 = deviceConnected w0"
    and w1: "currentState w1 = STATE_UPLOADING" "currentFile w1 \<noteq> None"
      "expectedFileSize w1 = S" "unat (expectedChunks w1) = chunks_needed S"
      "unat (receivedChunks w1) = length xs" "unat (transferredBytes w1) = total_bytes xs"
    by auto
  have nz: "expectedFileSize w1 \<noteq> 0" using S w1(3) by auto
  have small: "unat (receivedChunks w1) < 65535"
    using before(1) chunks_needed_small [OF S(2)] w1(5) by simp
  have bytes: "unat (transferredBytes w1) + 210 < 2 ^ 32"
    using before(2) S(2) w1(6) by simp
  obtain w' where step: "receiveChunk base64Data cap w1 = Inr w'"
    and con': "deviceConnected w' = deviceConnected w1"
    and after: "if unat (expectedChunks w1) \<le> unat (receivedChunks w1) + 1
        \<or> unat (expectedFileSize w1) \<le> unat (transferredBytes w1) + decodedLength base64Data
     then currentState w' = STATE_IDLE \<and> currentFile w' = None
          \<and> (deviceConnected w1 \<longrightarrow> ends_with_report (notified w'))
     else currentState w' = STATE_UPLOADING \<and> currentFile w' \<noteq> None
          \<and> expectedFileSize w' = expectedFileSize w1 \<and> expectedChunks w' = expectedChunks w1
          \<and> unat (receivedChunks w') = unat (receivedChunks w1) + 1
          \<and> unat (transferredBytes w') = unat (transferredBytes w1) + decodedLength base64Data"
    using accepted_chunk_step [OF w1(1) w1(2) nz acc_c small bytes] by blast
  have whole: "upload_chunks (xs @ [c]) w0 = Inr w'"
    using run step by (simp add: c upload_chunks_snoc)
  have len: "length (xs @ [c]) = length xs + 1" by simp
  have tot: "total_bytes (xs @ [c]) = total_bytes xs + decodedLength base64Data"
    by (simp add: total_bytes_snoc c)
  show ?case
  proof (cases "length (xs @ [c]) < chunks_needed S \<and> total_bytes (xs @ [c]) < unat S")
    case True
    then have "\<not> (unat (expectedChunks w1) \<le> unat (receivedChunks w1) + 1
        \<or> unat (expectedFileSize w1) \<le> unat (transferredBytes w1) + decodedLength base64Data)"
      using w1 len tot by simp
    with after have "currentState w' = STATE_UPLOADING \<and> currentFile w' \<noteq> None
          \<and> expectedFileSize w' = expectedFileSize w1 \<and> expectedChunks w' = expectedChunks w1
          \<and> unat (receivedChunks w') = unat (receivedChunks w1) + 1
          \<and> unat (transferredBytes w') = unat (transferredBytes w1) + decodedLength base64Data"
      by simp
    with True whole con con' w1 len tot show ?thesis by simp
  next
    case False
    then have "unat (expectedChunks w1) \<le> unat (receivedChunks w1) + 1
        \<or> unat (expectedFileSize w1) \<le> unat (transferredBytes w1) + decodedLength base64Data"
      using w1 len tot by auto
    with after have "currentState w' = STATE_IDLE \<and> currentFile w' = None
          \<and> (deviceConnected w1 \<longrightarrow> ends_with_report (notified w'))"
      by simp
    with False whole con con' show ?thesis by simp
  qed
qed

text \<open>
  Declared sizes between 1 and 13107000 bytes are those whose number of chunks
  \<open>ceil(S / 200)\<close> fits the 16-bit \<^verbatim>\<open>expectedChunks\<close>. For them an upload fed with
  accepted chunks stays in phase Uploading as long as fewer than \<open>ceil(S / 200)\<close> chunks
  have arrived and fewer than \<open>S\<close> bytes were written, and the first chunk with which the
  count reaches \<open>ceil(S / 200)\<close>, or the written bytes reach or exceed \<open>S\<close>, finalizes
  the session: it returns to Idle with the handle closed, and the last thing notified is
  the completion message or the size-mismatch warning.
\<close>

lemma upload_completion_in_range:
  assumes "currentState w = STATE_IDLE"
    and "0 < S" and "S \<le> 13107000" and "S \<le> free"
    and "\<forall>c\<in>set chunks. accepted c"
    and "\<forall>j<length chunks. j < chunks_needed S \<and> total_bytes (take j chunks) < unat S"
  shows "\<exists>w'. upload_chunks chunks (startUpload name S free True w) = Inr w' \<and>
    (if length chunks < chunks_needed S \<and> total_bytes chunks < unat S
     then currentState w' = STATE_UPLOADING \<and> currentFile w' \<noteq> None
     else currentState w' = STATE_IDLE \<and> currentFile w' = None
          \<and> (deviceConnected w \<longrightarrow> ends_with_report (notified w')))"
proof -
  let ?w0 = "startUpload name S free True w"
  have pos: "0 < unat S" using assms(2) by (simp add: word_less_nat_alt)
  have small: "unat S \<le> 13107000" using assms(3) by (simp add: word_le_nat_alt)
  note st = startUpload_started [OF assms(1) assms(4), of name]
  have ec: "unat (expectedChunks ?w0) = chunks_needed S"
    using st(6) expectedChunks_exact [OF small] by simp
  have open0: "currentFile ?w0 \<noteq> None" using st(2) by simp
  from upload_run [OF pos small st(1) open0 st(3) ec st(5) st(4) assms(5) assms(6)]
  obtain w' where "upload_chunks chunks ?w0 = Inr w'"
    and "deviceConnected w' = deviceConnected ?w0"
    and "if length chunks < chunks_needed S \<and> total_bytes chunks < unat S
     then currentState w' = STATE_UPLOADING \<and> currentFile w' \<noteq> None
          \<and> expectedFileSize w' = S \<and> unat (expectedChunks w') = chunks_needed S
          \<and> unat (receivedChunks w') = length chunks
          \<and> unat (transferredBytes w') = total_bytes chunks
     else currentState w' = STATE_IDLE \<and> currentFile w' = None
          \<and> (deviceConnected ?w0 \<longrightarrow> ends_with_report (notified w'))"
    by blast
  then show ?thesis using st(7) by (auto split: if_splits)
qed

text \<open>
  The upload of 300 bytes in chunks of 200 and 100 bytes: after the first
  chunk the session is still uploading, the second chunk, which is chunk number
  \<open>ceil(300 / 200) = 2\<close>, finalizes it.
\<close>

lemma upload_completion_in_range_example:
  "currentState connected_device = STATE_IDLE \<and> deviceConnected connected_device
   \<and> accepted (encodeBase64 (replicate 200 65), 200)
   \<and> accepted (encodeBase64 (replicate 100 66), 100)
   \<and> chunks_needed 300 = 2
   \<and> (\<exists>w'. upload_chunks [(encodeBase64 (replicate 200 65), 200)]
               (startUpload ''a.bin'' 300 1000 True connected_device) = Inr w'
          \<and> currentState w' = STATE_UPLOADING \<and> currentFile w' \<noteq> None)
   \<and> (\<exists>w'. upload_chunks [(encodeBase64 (replicate 200 65), 200),
                            (encodeBase64 (replicate 100 66), 100)]
               (startUpload ''a.bin'' 300 1000 True connected_device) = Inr w'
          \<and> currentState w' = STATE_IDLE \<and> currentFile w' = None
          \<and> ends_with_report (notified w'))"
proof -
  let ?c1 = "(encodeBase64 (replicate 200 (65 :: byte)), 200 :: nat)"
  let ?c2 = "(encodeBase64 (replicate 100 (66 :: byte)), 100 :: nat)"
  have idle: "currentState connected_device = STATE_IDLE"
    and con: "deviceConnected connected_device"
    by (simp_all add: connected_device_eq)
  have len1: "decodedLength (fst ?c1) = 200"
    by (simp add: decodedLength_def decodeBase64_encoded CHUNK_SIZE_def)
  have len2: "decodedLength (fst ?c2) = 100"
    by (simp add: decodedLength_def decodeBase64_encoded CHUNK_SIZE_def)
  have acc1: "accepted ?c1" unfolding accepted_def using len1 by simp
  have acc2: "accepted ?c2" unfolding accepted_def using len2 by simp
  have need: "chunks_needed 300 = 2"
    by (simp add: chunks_needed_def CHUNK_SIZE_def)
  have tot1: "total_bytes [?c1] = 200" using len1 by (simp add: total_bytes_def)
  have tot2: "total_bytes [?c1, ?c2] = 300" using len1 len2 by (simp add: total_bytes_def)
  have one: "\<exists>w'. upload_chunks [?c1] (startUpload ''a.bin'' 300 1000 True connected_device) = Inr w'
      \<and> currentState w' = STATE_UPLOADING \<and> currentFile w' \<noteq> None"
    using upload_completion_in_range [OF idle, of 300 1000 "[?c1]" "''a.bin''"] acc1 need tot1
    by (simp add: total_bytes_def)
  have before: "\<forall>j<length [?c1, ?c2]. j < chunks_needed 300
      \<and> total_bytes (take j [?c1, ?c2]) < unat (300 :: 32 word)"
  proof (intro allI impI)
    fix j assume "j < length [?c1, ?c2]"
    then have "j = 0 \<or> j = 1" by auto
    then show "j < chunks_needed 300 \<and> total_bytes (take j [?c1, ?c2]) < unat (300 :: 32 word)"
      using need tot1 by (auto simp: total_bytes_def)
  qed
  have two: "\<exists>w'. upload_chunks [?c1, ?c2] (startUpload ''a.bin'' 300 1000 True connected_device) = Inr w'
      \<and> currentState w' = STATE_IDLE \<and> currentFile w' = None \<and> ends_with_report (notified w')"
    using upload_completion_in_range [OF idle _ _ _ _ before, of 1000 "''a.bin''"] acc1 acc2 need tot2 con
    by simp
  show ?thesis using idle con acc1 acc2 need one two by blast
qed

text \<open>
  C4. An upload with declared size \<open>S > 0\<close> and accepted chunks finalizes after exactly
  \<open>ceil(S / 200)\<close> chunks, or earlier once \<open>S\<close> bytes are written. Line 483 computes
  this count and stores it in the 16-bit \<^verbatim>\<open>expectedChunks\<close>, which cuts it off: for a
  declared size of 13107200 bytes, on a storage with that much free space, the count
  65536 is stored as 0, and the first accepted chunk, of one byte, finalizes the session
  with a size-mismatch warning although 65536 chunks are needed and one byte is less
  than the declared size.
\<close>

theorem upload_finalizes_early:
  "handle (Write (UploadStart ''a.bin'' 13107200) large_env) connected_device = Inr large_upload
   \<and> currentState large_upload = STATE_UPLOADING
   \<and> expectedFileSize large_upload = 13107200
   \<and> expectedChunks large_upload = 0
   \<and> chunks_needed 13107200 = 65536
   \<and> accepted (''QQ=='', capacity large_env)
   \<and> total_bytes [(''QQ=='', capacity large_env)] = 1
   \<and> handle (Write (UploadChunk ''QQ=='') large_env) large_upload =
       Inr \<lparr>deviceConnected = True, currentState = STATE_IDLE, currentFilename = [],
            currentFile = None, expectedFileSize = 0, transferredBytes = 0,
            expectedChunks = 0, receivedChunks = 0, littlefs = [(''/a.bin'', [65])],
            notified = [Response (''OK:UPLOAD_READY'' @ [CHR 0x0A]), Progress 0, Progress 0,
                        Response (''ACK:1'' @ [CHR 0x0A]),
                        Response (''WARNING:SIZE_MISMATCH:1'' @ [CHR 0x0A])]\<rparr>"
proof -
  have dec: "decodeBase64 ''QQ=='' (CHUNK_SIZE + 10) = (1, [65])"
    by (simp add: decodeBase64_def mbedtls_base64_decode_def decode_final_def
        dec_value_def accumulate_def BYTE_2_def CHUNK_SIZE_def)
  then have len: "decodedLength ''QQ=='' = 1" by (simp add: decodedLength_def)
  have "handle (Write (UploadStart ''a.bin'' 13107200) large_env) connected_device
          = Inr large_upload"
    by (simp add: large_upload_def large_env_def)
  moreover have "handle (Write (UploadChunk ''QQ=='') large_env) large_upload =
       Inr \<lparr>deviceConnected = True, currentState = STATE_IDLE, currentFilename = [],
            currentFile = None, expectedFileSize = 0, transferredBytes = 0,
            expectedChunks = 0, receivedChunks = 0, littlefs = [(''/a.bin'', [65])],
            notified = [Response (''OK:UPLOAD_READY'' @ [CHR 0x0A]), Progress 0, Progress 0,
                        Response (''ACK:1'' @ [CHR 0x0A]),
                        Response (''WARNING:SIZE_MISMATCH:1'' @ [CHR 0x0A])]\<rparr>"
    by (simp add: large_upload_eq large_env_def receiveChunk_def dec write_currentFile_def
        contents_def sendProgress_def sendResponse_def finishUpload_def file_size_def
        resetTransferState_def String_of_digits Let_def)
  moreover have "chunks_needed 13107200 = 65536"
    by (simp add: chunks_needed_def CHUNK_SIZE_def)
  ultimately show ?thesis
    using len by (simp add: large_upload_eq large_env_def accepted_def total_bytes_def)
qed

section \<open>Where the sketch leaves its own rules\<close>

lemma decode_one_byte: "decodeBase64 ''QQ=='' (CHUNK_SIZE + 10) = (1, [65])"
  by (simp add: decodeBase64_def mbedtls_base64_decode_def decode_final_def
      dec_value_def accumulate_def BYTE_2_def CHUNK_SIZE_def)

lemma decode_two_bytes: "decodeBase64 ''AAA='' (CHUNK_SIZE + 10) = (2, [0, 0])"
  by (simp add: decodeBase64_def mbedtls_base64_decode_def decode_final_def
      dec_value_def accumulate_def BYTE_2_def BYTE_1_def CHUNK_SIZE_def)

text \<open>
  C5. At the end of every handled event an active session has not passed its declared
  size (lemma \<open>reachable_transferred_le_expected\<close>), and a chunk that is handled to its
  end leaves the session either Idle or below its declared size (lemma
  \<open>receiveChunk_cases\<close>). The step that the claim also
  covers and the sketch does not survive is the first chunk of an upload declared with
  0 bytes: the chunk is accepted, the written bytes reach the declared size, and the
  handler stops in the division of line 531 instead of ending the session.
\<close>

theorem chunk_reaching_declared_size_faults:
  "currentState empty_upload = STATE_UPLOADING
   \<and> accepted (''QQ=='', 1)
   \<and> expectedFileSize empty_upload
        \<le> transferredBytes empty_upload + of_nat (decodedLength ''QQ=='')
   \<and> receiveChunk ''QQ=='' 1 empty_upload = Inl IntegerDivideByZero"
  by (simp add: empty_upload_eq accepted_def decodedLength_def decode_one_byte
      receiveChunk_def write_currentFile_def contents_def Let_def)

text \<open>
  C9. The byte sent on the progress channel is the 32-bit quotient
  \<^verbatim>\<open>transferredBytes * 100 / expectedFileSize\<close> cut to 8 bits, with no upper limit of
  100. An upload declared with 1 byte that receives a chunk of 2 bytes notifies the
  progress value 200.
\<close>

theorem progress_exceeds_100:
  "handle (Write (UploadStart ''a.bin'' 1) example_env) connected_device = Inr one_byte_upload
   \<and> currentState one_byte_upload = STATE_UPLOADING
   \<and> handle (Write (UploadChunk ''AAA='') example_env) one_byte_upload =
       Inr \<lparr>deviceConnected = True, currentState = STATE_IDLE, currentFilename = [],
            currentFile = None, expectedFileSize = 0, transferredBytes = 0,
            expectedChunks = 0, receivedChunks = 0, littlefs = [(''/a.bin'', [0, 0])],
            notified = [Response (''OK:UPLOAD_READY'' @ [CHR 0x0A]), Progress 0, Progress 200,
                        Response (''ACK:1'' @ [CHR 0x0A]),
                        Response (''WARNING:SIZE_MISMATCH:2'' @ [CHR 0x0A])]\<rparr>
   \<and> (100 :: byte) < 200"
proof -
  have "handle (Write (UploadStart ''a.bin'' 1) example_env) connected_device
          = Inr one_byte_upload"
    by (simp add: one_byte_upload_def example_env_def)
  moreover have "handle (Write (UploadChunk ''AAA='') example_env) one_byte_upload =
       Inr \<lparr>deviceConnected = True, currentState = STATE_IDLE, currentFilename = [],
            currentFile = None, expectedFileSize = 0, transferredBytes = 0,
            expectedChunks = 0, receivedChunks = 0, littlefs = [(''/a.bin'', [0, 0])],
            notified = [Response (''OK:UPLOAD_READY'' @ [CHR 0x0A]), Progress 0, Progress 200,
                        Response (''ACK:1'' @ [CHR 0x0A]),
                        Response (''WARNING:SIZE_MISMATCH:2'' @ [CHR 0x0A])]\<rparr>"
    by (simp add: one_byte_upload_eq example_env_def receiveChunk_def decode_two_bytes
        write_currentFile_def contents_def sendProgress_def sendResponse_def finishUpload_def
        file_size_def resetTransferState_def String_of_digits Let_def)
  ultimately show ?thesis by (simp add: one_byte_upload_eq)
qed

text \<open>
  C10. \<^verbatim>\<open>startUpload\<close> accepts a declared size of 0 and opens the upload. The first
  chunk then decodes, is written in full, and the handler divides by the declared size:
  the division of line 531 is reached with divisor 0.
\<close>

theorem zero_size_upload_divides_by_zero:
  "handle (Write (UploadStart ''a.bin'' 0) example_env) connected_device = Inr empty_upload
   \<and> currentState empty_upload = STATE_UPLOADING
   \<and> expectedFileSize empty_upload = 0
   \<and> decodeBase64 ''QQ=='' (CHUNK_SIZE + 10) = (1, [65])
   \<and> fst (write_currentFile [65] (capacity example_env) empty_upload) = 1
   \<and> handle (Write (UploadChunk ''QQ=='') example_env) empty_upload = Inl IntegerDivideByZero"
proof -
  have "handle (Write (UploadStart ''a.bin'' 0) example_env) connected_device = Inr empty_upload"
    by (simp add: empty_upload_def example_env_def)
  moreover have "fst (write_currentFile [65] (capacity example_env) empty_upload) = 1"
    by (simp add: write_currentFile_def empty_upload_eq example_env_def)
  moreover have "handle (Write (UploadChunk ''QQ=='') example_env) empty_upload
                   = Inl IntegerDivideByZero"
    by (simp add: empty_upload_eq example_env_def receiveChunk_def decode_one_byte
        write_currentFile_def contents_def Let_def)
  ultimately show ?thesis by (simp add: empty_upload_eq decode_one_byte)
qed

end
